theory Spec2Isabelle
  imports Complex_Main "HOL-Library.Word"
begin

unbundle bit_operations_syntax

text \<open>
  A model of the SecureSync browser extension: the conflict resolver, the encryption
  utilities, the vault and the sync service, each function translated from its JavaScript
  source, with the browser's own primitives taken as parameters or modelled from their
  standards.  The definitions come first, the lemmas and the theorems on the behaviour of
  the code after them.
\<close>

section \<open>Ordered maps and sets of JavaScript\<close>

text \<open>
  A JavaScript \<open>Map\<close> keeps its entries in the order in which each key was first inserted;
  setting a key that is already present replaces the value in place.  It is modelled as an
  association list with that update rule.  \<open>new Map(pairs)\<close> inserts the pairs from left to
  right, \<open>map.get\<close> is the lookup (\<open>None\<close> for \<open>undefined\<close>), \<open>map.keys()\<close> and
  \<open>map.values()\<close> enumerate in entry order.
\<close>

fun Map_set :: "'k \<Rightarrow> 'v \<Rightarrow> ('k \<times> 'v) list \<Rightarrow> ('k \<times> 'v) list" where
  "Map_set k v [] = [(k, v)]"
| "Map_set k v ((k', v') # m) = (if k' = k then (k, v) # m else (k', v') # Map_set k v m)"

definition Map_new :: "('k \<times> 'v) list \<Rightarrow> ('k \<times> 'v) list" where
  "Map_new pairs = foldl (\<lambda>m (k, v). Map_set k v m) [] pairs"

definition Map_get :: "('k \<times> 'v) list \<Rightarrow> 'k \<Rightarrow> 'v option" where
  "Map_get m k = map_of m k"

definition Map_keys :: "('k \<times> 'v) list \<Rightarrow> 'k list" where
  "Map_keys m = map fst m"

definition Map_values :: "('k \<times> 'v) list \<Rightarrow> 'v list" where
  "Map_values m = map snd m"

text \<open>\<open>new Set(xs)\<close>, iterated: the elements of \<open>xs\<close> in order of first occurrence.\<close>

fun Set_new :: "'k list \<Rightarrow> 'k list" where
  "Set_new [] = []"
| "Set_new (x # xs) = x # filter (\<lambda>y. y \<noteq> x) (Set_new xs)"

section \<open>JavaScript values\<close>

text \<open>
  A \<open>Uint8Array\<close> is a list of bytes.  A JavaScript string is a sequence of 16-bit code
  units; \<open>js\<close> turns an ASCII literal of the source into such a string.  \<open>s.length\<close> is the
  number of code units and \<open>a + b\<close> on strings is list append.
\<close>

type_synonym byte = "8 word"
type_synonym bytes = "byte list"
type_synonym code_unit = "16 word"
type_synonym jsstring = "code_unit list"

definition js :: "string \<Rightarrow> jsstring" where
  "js s = map (\<lambda>c. of_nat (of_char c)) s"

text \<open>
  What the code throws: \<open>new Error(message)\<close>, a \<open>DOMException\<close> with its name (the
  platform's \<open>InvalidCharacterError\<close>, \<open>OperationError\<close>, \<open>DataError\<close>,
  \<open>InvalidAccessError\<close>), a \<open>TypeError\<close> or a \<open>SyntaxError\<close>.  A function that can throw
  returns \<open>error + 'a\<close>, with \<open>Inl\<close> for the exception.
\<close>

datatype error = Error string | DOMException string | TypeError | SyntaxError

definition bind_err :: "error + 'a \<Rightarrow> ('a \<Rightarrow> error + 'b) \<Rightarrow> error + 'b" where
  "bind_err r f = (case r of Inl e \<Rightarrow> Inl e | Inr x \<Rightarrow> f x)"

text \<open>
  Values as \<open>JSON.parse\<close> produces them and as the vault stores them.  An object is the
  list of its own properties in insertion order.  An array or an object is held by
  reference, and the value carries the address that identifies it: two values with the same
  address are the same object, and two objects created separately have different addresses
  even when their contents agree.
\<close>

type_synonym address = nat

datatype jsval =
    JUndefined
  | JNull
  | JBool bool
  | JNum real
  | JStr jsstring
  | JArr address "jsval list"
  | JObj address "(jsstring \<times> jsval) list"

type_synonym jsobj = "(jsstring \<times> jsval) list"

text \<open>
  The vault and its items are kept as lists of properties.  \<open>object_value\<close> and
  \<open>array_value\<close> give the value that is handed to \<open>JSON.stringify\<close>, which reads the
  contents and not the reference; the address is 0 there.
\<close>

definition object_value :: "jsobj \<Rightarrow> jsval" where
  "object_value props = JObj 0 props"

definition array_value :: "jsval list \<Rightarrow> jsval" where
  "array_value vs = JArr 0 vs"

text \<open>
  \<open>obj.key\<close> on an object literal or a parsed object: the own property, or \<open>undefined\<close>.
  Writing a property, whether by assignment, by a key of an object literal or by spread,
  replaces the value of an existing key in place and appends a new key at the end, which is
  the rule of \<open>Map_set\<close>.
\<close>

definition obj_get :: "jsobj \<Rightarrow> jsstring \<Rightarrow> jsval" where
  "obj_get obj k = (case map_of obj k of None \<Rightarrow> JUndefined | Some v \<Rightarrow> v)"

definition obj_set :: "jsstring \<Rightarrow> jsval \<Rightarrow> jsobj \<Rightarrow> jsobj" where
  "obj_set k v obj = Map_set k v obj"

definition obj_spread :: "jsobj \<Rightarrow> jsobj \<Rightarrow> jsobj" where
  \<comment> \<open>\<open>{ ...target, ...source }\<close>: the properties of \<open>source\<close> written onto \<open>target\<close> in order\<close>
  "obj_spread target source = foldl (\<lambda>obj (k, v). obj_set k v obj) target source"

text \<open>
  \<open>a === b\<close>.  Primitive values are compared by value; two objects or arrays are equal
  only when they are the same reference.
\<close>

fun strict_eq :: "jsval \<Rightarrow> jsval \<Rightarrow> bool" where
  "strict_eq (JObj a props) b = (case b of JObj a' props' \<Rightarrow> a = a' | _ \<Rightarrow> False)"
| "strict_eq (JArr a vs) b = (case b of JArr a' vs' \<Rightarrow> a = a' | _ \<Rightarrow> False)"
| "strict_eq a b = (a = b)"

text \<open>
  The keys of a \<open>Map\<close> and the members of a \<open>Set\<close> are compared by SameValueZero:
  primitive values by value, objects and arrays by reference.  A \<open>map_key\<close> is what that
  comparison sees of a value, so that two values are the same key exactly when their
  \<open>map_key\<close>s are equal.
\<close>

datatype map_key = Value_key jsval | Reference_key address

definition SameValueZero_key :: "jsval \<Rightarrow> map_key" where
  "SameValueZero_key v =
     (case v of
        JArr a vs \<Rightarrow> Reference_key a
      | JObj a props \<Rightarrow> Reference_key a
      | _ \<Rightarrow> Value_key v)"

text \<open>\<open>xs.findIndex(p)\<close>: the first index whose element satisfies \<open>p\<close>, \<open>None\<close> for \<open>-1\<close>.\<close>

fun findIndex :: "('a \<Rightarrow> bool) \<Rightarrow> 'a list \<Rightarrow> nat option" where
  "findIndex p [] = None"
| "findIndex p (x # xs) = (if p x then Some 0 else map_option Suc (findIndex p xs))"

section \<open>Conflict resolution (src/sync/conflict-resolver.js)\<close>

text \<open>
  The resolver reads three things from an item: \<open>item.id\<close> (used as a \<open>Map\<close> key),
  \<open>new Date(item.updatedAt).getTime()\<close> and \<open>JSON.stringify(item)\<close>.  The item type is left
  open and these three observations are supplied as functions.  \<open>item_id\<close> yields the id as
  the \<open>Map\<close> and the \<open>Set\<close> compare it: two items have the same \<open>item_id\<close> exactly when
  their ids are the same key, that is equal primitive values or one and the same object.
  \<open>getTime\<close> yields a number of
  milliseconds, or \<open>NaN\<close> for an unparsable date, which is \<open>None\<close> here; the comparisons
  \<open>!==\<close> and \<open>>\<close> on such numbers follow IEEE 754 (\<open>NaN !== NaN\<close> holds, \<open>NaN > t\<close> and
  \<open>t > NaN\<close> do not).
\<close>

record ('a, 'k, 's) item_view =
  item_id :: "'a \<Rightarrow> 'k"
  getTime :: "'a \<Rightarrow> int option"
  JSON_stringify :: "'a \<Rightarrow> 's"

definition num_neq :: "int option \<Rightarrow> int option \<Rightarrow> bool" where
  "num_neq a b = (case (a, b) of (Some x, Some y) \<Rightarrow> x \<noteq> y | _ \<Rightarrow> True)"

definition num_gt :: "int option \<Rightarrow> int option \<Rightarrow> bool" where
  "num_gt a b = (case (a, b) of (Some x, Some y) \<Rightarrow> x > y | _ \<Rightarrow> False)"

record ('a, 'k) conflict =
  conflict_id :: 'k
  conflict_local :: 'a
  conflict_remote :: 'a
  localTime :: "int option"
  remoteTime :: "int option"

fun detectConflicts_loop ::
  "('a, 'k, 's) item_view \<Rightarrow> ('k \<times> 'a) list \<Rightarrow> 'a list \<Rightarrow> ('a, 'k) conflict list" where
  "detectConflicts_loop V remoteMap [] = []"
| "detectConflicts_loop V remoteMap (localItem # rest) =
     (case Map_get remoteMap (item_id V localItem) of
        None \<Rightarrow> detectConflicts_loop V remoteMap rest
      | Some remoteItem \<Rightarrow>
          (let lt = getTime V localItem; rt = getTime V remoteItem in
           if JSON_stringify V localItem \<noteq> JSON_stringify V remoteItem \<and> num_neq lt rt
           then \<lparr>conflict_id = item_id V localItem, conflict_local = localItem,
                 conflict_remote = remoteItem, localTime = lt, remoteTime = rt\<rparr>
                # detectConflicts_loop V remoteMap rest
           else detectConflicts_loop V remoteMap rest))"

definition detectConflicts ::
  "('a, 'k, 's) item_view \<Rightarrow> 'a list \<Rightarrow> 'a list \<Rightarrow> ('a, 'k) conflict list" where
  "detectConflicts V localItems remoteItems =
     (let remoteMap = Map_new (map (\<lambda>item. (item_id V item, item)) remoteItems)
      in detectConflicts_loop V remoteMap localItems)"

record 'a resolution =
  keepLocal :: "'a list"
  keepRemote :: "'a list"

fun resolveConflictsLastWriteWins_loop ::
  "'a resolution \<Rightarrow> ('a, 'k) conflict list \<Rightarrow> 'a resolution" where
  "resolveConflictsLastWriteWins_loop resolved [] = resolved"
| "resolveConflictsLastWriteWins_loop resolved (c # cs) =
     (if num_gt (localTime c) (remoteTime c)
      then resolveConflictsLastWriteWins_loop
             (resolved\<lparr>keepLocal := keepLocal resolved @ [conflict_local c]\<rparr>) cs
      else resolveConflictsLastWriteWins_loop
             (resolved\<lparr>keepRemote := keepRemote resolved @ [conflict_remote c]\<rparr>) cs)"

definition resolveConflictsLastWriteWins :: "('a, 'k) conflict list \<Rightarrow> 'a resolution" where
  "resolveConflictsLastWriteWins conflicts =
     resolveConflictsLastWriteWins_loop \<lparr>keepLocal = [], keepRemote = []\<rparr> conflicts"

record ('a, 'k) merge_result =
  merged :: "'a list"
  conflicts :: "('a, 'k) conflict list"

text \<open>
  \<open>mergeItems(localItems, remoteItems, strategy = 'last-write-wins')\<close>: the default
  applies when the argument is \<open>undefined\<close>.  The helper below is the body of the loop in
  the branch taken when no conflict was detected: one item per id of
  either side; where both sides hold the id, the local item if its time is strictly greater
  and the remote item otherwise.
\<close>

definition simple_merge_pick ::
  "('a, 'k, 's) item_view \<Rightarrow> ('k \<times> 'a) list \<Rightarrow> ('k \<times> 'a) list \<Rightarrow> 'k \<Rightarrow> 'a list" where
  "simple_merge_pick V localMap remoteMap i =
     (case (Map_get localMap i, Map_get remoteMap i) of
        (Some l, Some r) \<Rightarrow> [if num_gt (getTime V l) (getTime V r) then l else r]
      | (Some l, None) \<Rightarrow> [l]
      | (None, Some r) \<Rightarrow> [r]
      | (None, None) \<Rightarrow> [])"

definition mergeItems ::
  "('a, 'k, 's) item_view \<Rightarrow> 'a list \<Rightarrow> 'a list \<Rightarrow> jsval \<Rightarrow> ('a, 'k) merge_result" where
  "mergeItems V localItems remoteItems strategy_arg =
     (let strategy = (if strategy_arg = JUndefined then JStr (js ''last-write-wins'')
                      else strategy_arg);
          cs = detectConflicts V localItems remoteItems
      in if length cs = 0 then
           (let localMap = Map_new (map (\<lambda>item. (item_id V item, item)) localItems);
                remoteMap = Map_new (map (\<lambda>item. (item_id V item, item)) remoteItems);
                allIds = Set_new (Map_keys localMap @ Map_keys remoteMap)
            in \<lparr>merged = concat (map (simple_merge_pick V localMap remoteMap) allIds),
                conflicts = []\<rparr>)
         else if strategy = JStr (js ''last-write-wins'') then
           (let resolution = resolveConflictsLastWriteWins cs;
                conflictIds = Set_new (map conflict_id cs);
                nonConflictLocal = filter (\<lambda>item. item_id V item \<notin> set conflictIds) localItems;
                nonConflictRemote = filter (\<lambda>item. item_id V item \<notin> set conflictIds) remoteItems;
                all = nonConflictLocal @ nonConflictRemote
                      @ keepLocal resolution @ keepRemote resolution;
                uniqueMap = Map_new (map (\<lambda>item. (item_id V item, item)) all)
            in \<lparr>merged = Map_values uniqueMap, conflicts = []\<rparr>)
         else \<lparr>merged = localItems, conflicts = cs\<rparr>)"

text \<open>
  The detection test of \<open>detectConflicts\<close> and the conflict record it pushes, named so
  that the lemmas below can speak about them.
\<close>

definition is_conflict :: "('a, 'k, 's) item_view \<Rightarrow> 'a \<Rightarrow> 'a \<Rightarrow> bool" where
  "is_conflict V l r \<longleftrightarrow>
     JSON_stringify V l \<noteq> JSON_stringify V r \<and> num_neq (getTime V l) (getTime V r)"

definition mk_conflict :: "('a, 'k, 's) item_view \<Rightarrow> 'a \<Rightarrow> 'a \<Rightarrow> ('a, 'k) conflict" where
  "mk_conflict V l r = \<lparr>conflict_id = item_id V l, conflict_local = l, conflict_remote = r,
     localTime = getTime V l, remoteTime = getTime V r\<rparr>"

subsection \<open>Sample items\<close>

text \<open>
  Concrete items for evaluating the resolver: an id, \<open>updatedAt\<close> in epoch milliseconds
  and a body.  Two such items serialise alike exactly when they are equal.
\<close>

record entry =
  entry_id :: string
  entry_updatedAt :: int
  entry_body :: string

definition entry_view :: "(entry, string, entry) item_view" where
  "entry_view = \<lparr>item_id = entry_id, getTime = (\<lambda>e. Some (entry_updatedAt e)),
     JSON_stringify = (\<lambda>e. e)\<rparr>"

definition item_a5 :: entry where
  "item_a5 = \<lparr>entry_id = ''a'', entry_updatedAt = 5, entry_body = ''v5''\<rparr>"

definition item_a1 :: entry where
  "item_a1 = \<lparr>entry_id = ''a'', entry_updatedAt = 1, entry_body = ''v1''\<rparr>"

definition item_a3 :: entry where
  "item_a3 = \<lparr>entry_id = ''a'', entry_updatedAt = 3, entry_body = ''v3''\<rparr>"

definition item_b2 :: entry where
  "item_b2 = \<lparr>entry_id = ''b'', entry_updatedAt = 2, entry_body = ''w''\<rparr>"

section \<open>Platform text and base64 codecs\<close>

subsection \<open>\<open>TextEncoder.encode\<close> and \<open>TextDecoder.decode\<close>\<close>

text \<open>
  \<open>new TextEncoder().encode(s)\<close> reads the string as UTF-16, replacing every unpaired
  surrogate by U+FFFD, and writes the scalar values in UTF-8.
\<close>

definition is_high_surrogate :: "code_unit \<Rightarrow> bool" where
  "is_high_surrogate u \<longleftrightarrow> 0xD800 \<le> unat u \<and> unat u \<le> 0xDBFF"

definition is_low_surrogate :: "code_unit \<Rightarrow> bool" where
  "is_low_surrogate u \<longleftrightarrow> 0xDC00 \<le> unat u \<and> unat u \<le> 0xDFFF"

definition scalar_of_unit :: "code_unit \<Rightarrow> nat" where
  "scalar_of_unit u = (if is_high_surrogate u \<or> is_low_surrogate u then 0xFFFD else unat u)"

fun utf16_scalars :: "jsstring \<Rightarrow> nat list" where
  "utf16_scalars [] = []"
| "utf16_scalars [u] = [scalar_of_unit u]"
| "utf16_scalars (u # v # rest) =
     (if is_high_surrogate u \<and> is_low_surrogate v
      then (0x10000 + (unat u - 0xD800) * 0x400 + (unat v - 0xDC00)) # utf16_scalars rest
      else scalar_of_unit u # utf16_scalars (v # rest))"

definition utf8_encode_scalar :: "nat \<Rightarrow> bytes" where
  "utf8_encode_scalar c =
     (if c < 0x80 then [of_nat c]
      else if c < 0x800 then [of_nat (0xC0 + c div 0x40), of_nat (0x80 + c mod 0x40)]
      else if c < 0x10000 then
        [of_nat (0xE0 + c div 0x1000), of_nat (0x80 + c div 0x40 mod 0x40),
         of_nat (0x80 + c mod 0x40)]
      else
        [of_nat (0xF0 + c div 0x40000), of_nat (0x80 + c div 0x1000 mod 0x40),
         of_nat (0x80 + c div 0x40 mod 0x40), of_nat (0x80 + c mod 0x40)])"

definition TextEncoder_encode :: "jsstring \<Rightarrow> bytes" where
  "TextEncoder_encode s = concat (map utf8_encode_scalar (utf16_scalars s))"

text \<open>
  \<open>new TextDecoder().decode(buffer)\<close>: the UTF-8 decoder of the Encoding standard in its
  default mode (not fatal, byte order mark not ignored).  \<open>utf8_decoder needed cp lower upper\<close>
  is the decoder's state: the number of continuation bytes still needed, the code point
  collected so far and the bounds for the next continuation byte.  An ill-formed sequence
  yields U+FFFD and the offending byte is read again as the start of a sequence.  A leading
  U+FEFF is removed from the output, and the scalar values are written as UTF-16.
\<close>

fun utf8_decoder :: "nat \<Rightarrow> nat \<Rightarrow> nat \<Rightarrow> nat \<Rightarrow> bytes \<Rightarrow> nat list" where
  "utf8_decoder needed cp lower upper [] = (if needed \<noteq> 0 then [0xFFFD] else [])"
| "utf8_decoder 0 cp lower upper (b # bs) =
     (let n = unat b in
      if n \<le> 0x7F then n # utf8_decoder 0 0 0x80 0xBF bs
      else if 0xC2 \<le> n \<and> n \<le> 0xDF then utf8_decoder 1 (n mod 0x20) 0x80 0xBF bs
      else if 0xE0 \<le> n \<and> n \<le> 0xEF then
        utf8_decoder 2 (n mod 0x10) (if n = 0xE0 then 0xA0 else 0x80)
          (if n = 0xED then 0x9F else 0xBF) bs
      else if 0xF0 \<le> n \<and> n \<le> 0xF4 then
        utf8_decoder 3 (n mod 0x08) (if n = 0xF0 then 0x90 else 0x80)
          (if n = 0xF4 then 0x8F else 0xBF) bs
      else 0xFFFD # utf8_decoder 0 0 0x80 0xBF bs)"
| "utf8_decoder (Suc r) cp lower upper (b # bs) =
     (let n = unat b in
      if n < lower \<or> upper < n then 0xFFFD # utf8_decoder 0 0 0x80 0xBF (b # bs)
      else if r = 0 then (cp * 0x40 + n mod 0x40) # utf8_decoder 0 0 0x80 0xBF bs
      else utf8_decoder r (cp * 0x40 + n mod 0x40) 0x80 0xBF bs)"

definition utf16_encode_scalar :: "nat \<Rightarrow> jsstring" where
  "utf16_encode_scalar c =
     (if c < 0x10000 then [of_nat c]
      else [of_nat (0xD800 + (c - 0x10000) div 0x400), of_nat (0xDC00 + (c - 0x10000) mod 0x400)])"

definition strip_BOM :: "nat list \<Rightarrow> nat list" where
  "strip_BOM cs = (case cs of c # rest \<Rightarrow> if c = 0xFEFF then rest else cs | [] \<Rightarrow> [])"

definition TextDecoder_decode :: "bytes \<Rightarrow> jsstring" where
  "TextDecoder_decode bs =
     concat (map utf16_encode_scalar (strip_BOM (utf8_decoder 0 0 0x80 0xBF bs)))"

subsection \<open>\<open>btoa\<close> and \<open>atob\<close>\<close>

text \<open>
  \<open>btoa\<close> encodes a binary string (every code unit at most 255, otherwise it throws
  \<open>InvalidCharacterError\<close>) in base64 with padding.  \<open>atob\<close> is the forgiving base64 decoder:
  ASCII whitespace is dropped, one or two trailing \<open>=\<close> are dropped when the length is a
  multiple of four, a remaining length of 1 modulo 4 or a character outside the alphabet
  throws \<open>InvalidCharacterError\<close>, and the spare bits of a final partial group are discarded.
\<close>

definition b64_char :: "nat \<Rightarrow> code_unit" where
  "b64_char i =
     (if i < 26 then of_nat (0x41 + i)
      else if i < 52 then of_nat (0x61 + (i - 26))
      else if i < 62 then of_nat (0x30 + (i - 52))
      else if i = 62 then 0x2B else 0x2F)"

definition b64_index :: "code_unit \<Rightarrow> nat option" where
  "b64_index c =
     (let n = unat c in
      if 0x41 \<le> n \<and> n \<le> 0x5A then Some (n - 0x41)
      else if 0x61 \<le> n \<and> n \<le> 0x7A then Some (n - 0x61 + 26)
      else if 0x30 \<le> n \<and> n \<le> 0x39 then Some (n - 0x30 + 52)
      else if n = 0x2B then Some 62
      else if n = 0x2F then Some 63
      else None)"

fun b64_encode_groups :: "nat list \<Rightarrow> jsstring" where
  "b64_encode_groups (x # y # z # rest) =
     (let n = x * 0x10000 + y * 0x100 + z in
      [b64_char (n div 0x40000), b64_char (n div 0x1000 mod 0x40), b64_char (n div 0x40 mod 0x40),
       b64_char (n mod 0x40)] @ b64_encode_groups rest)"
| "b64_encode_groups [x, y] =
     (let n = (x * 0x100 + y) * 4 in
      [b64_char (n div 0x1000), b64_char (n div 0x40 mod 0x40), b64_char (n mod 0x40), 0x3D])"
| "b64_encode_groups [x] =
     (let n = x * 0x10 in [b64_char (n div 0x40), b64_char (n mod 0x40), 0x3D, 0x3D])"
| "b64_encode_groups [] = []"

definition btoa :: "jsstring \<Rightarrow> error + jsstring" where
  "btoa binary =
     (if list_ex (\<lambda>c. 0xFF < unat c) binary then Inl (DOMException ''InvalidCharacterError'')
      else Inr (b64_encode_groups (map unat binary)))"

definition is_ascii_whitespace :: "code_unit \<Rightarrow> bool" where
  "is_ascii_whitespace c \<longleftrightarrow> c = 0x09 \<or> c = 0x0A \<or> c = 0x0C \<or> c = 0x0D \<or> c = 0x20"

definition strip_padding :: "jsstring \<Rightarrow> jsstring" where
  "strip_padding d =
     (if length d mod 4 = 0 \<and> d \<noteq> [] \<and> last d = 0x3D then
        (if butlast d \<noteq> [] \<and> last (butlast d) = 0x3D then butlast (butlast d) else butlast d)
      else d)"

fun b64_decode_groups :: "nat list \<Rightarrow> jsstring" where
  "b64_decode_groups (a # b # c # d # rest) =
     (let n = a * 0x40000 + b * 0x1000 + c * 0x40 + d in
      [of_nat (n div 0x10000), of_nat (n div 0x100 mod 0x100), of_nat (n mod 0x100)]
      @ b64_decode_groups rest)"
| "b64_decode_groups [a, b, c] =
     (let n = (a * 0x1000 + b * 0x40 + c) div 4 in [of_nat (n div 0x100), of_nat (n mod 0x100)])"
| "b64_decode_groups [a, b] = [of_nat ((a * 0x40 + b) div 0x10)]"
| "b64_decode_groups [a] = []"
| "b64_decode_groups [] = []"

fun those_indices :: "jsstring \<Rightarrow> nat list option" where
  "those_indices [] = Some []"
| "those_indices (c # cs) =
     (case b64_index c of None \<Rightarrow> None
      | Some i \<Rightarrow> (case those_indices cs of None \<Rightarrow> None | Some is \<Rightarrow> Some (i # is)))"

definition atob :: "jsstring \<Rightarrow> error + jsstring" where
  "atob data =
     (let d = strip_padding (filter (\<lambda>c. \<not> is_ascii_whitespace c) data) in
      if length d mod 4 = 1 then Inl (DOMException ''InvalidCharacterError'')
      else (case those_indices d of
              None \<Rightarrow> Inl (DOMException ''InvalidCharacterError'')
            | Some sextets \<Rightarrow> Inr (b64_decode_groups sextets)))"

text \<open>
  The two parts of what \<open>btoa\<close> writes, for the lemmas on the codec: the 6-bit values in
  order and the padding that follows them.
\<close>

fun b64_sextets :: "nat list \<Rightarrow> nat list" where
  "b64_sextets (x # y # z # rest) =
     (let n = x * 0x10000 + y * 0x100 + z in
      [n div 0x40000, n div 0x1000 mod 0x40, n div 0x40 mod 0x40, n mod 0x40] @ b64_sextets rest)"
| "b64_sextets [x, y] =
     (let n = (x * 0x100 + y) * 4 in [n div 0x1000, n div 0x40 mod 0x40, n mod 0x40])"
| "b64_sextets [x] = (let n = x * 0x10 in [n div 0x40, n mod 0x40])"
| "b64_sextets [] = []"

fun b64_padding :: "nat list \<Rightarrow> jsstring" where
  "b64_padding (x # y # z # rest) = b64_padding rest"
| "b64_padding [x, y] = [0x3D]"
| "b64_padding [x] = [0x3D, 0x3D]"
| "b64_padding [] = []"

text \<open>
  A string is well-formed UTF-16 when every surrogate code unit is half of a pair, high
  surrogate first.  A Unicode scalar value is a code point outside the surrogate range.
\<close>

fun well_formed_utf16 :: "jsstring \<Rightarrow> bool" where
  "well_formed_utf16 [] = True"
| "well_formed_utf16 [u] = (\<not> is_high_surrogate u \<and> \<not> is_low_surrogate u)"
| "well_formed_utf16 (u # v # rest) =
     (if is_high_surrogate u \<and> is_low_surrogate v then well_formed_utf16 rest
      else \<not> is_high_surrogate u \<and> \<not> is_low_surrogate u \<and> well_formed_utf16 (v # rest))"

definition is_scalar_value :: "nat \<Rightarrow> bool" where
  "is_scalar_value c \<longleftrightarrow> c < 0x110000 \<and> \<not> (0xD800 \<le> c \<and> c \<le> 0xDFFF)"

definition starts_with_BOM :: "jsstring \<Rightarrow> bool" where
  "starts_with_BOM s = (case s of [] \<Rightarrow> False | u # rest \<Rightarrow> u = 0xFEFF)"

section \<open>Encryption utilities (src/crypto/encryption.js)\<close>

subsection \<open>The platform's primitives\<close>

text \<open>
  The cryptographic primitives, the JSON codec and the date and number conversions belong
  to the browser, not to this code.  They are taken as parameters: a \<open>platform\<close> supplies
  PBKDF2 (hash, password, salt, iterations, length in bits), the hash functions, AES-GCM
  with its default 128-bit tag (key, iv, data), HMAC (hash, key, data),
  \<open>JSON.parse\<close>/\<open>JSON.stringify\<close>, \<open>new Date(v).getTime()\<close> (\<open>None\<close> for \<open>NaN\<close>) and the
  conversion of a number to a string.  Whatever a primitive rejects (PBKDF2 with zero
  iterations, a failed authentication tag, malformed JSON) is an \<open>Inl\<close> result of it.
\<close>

datatype hash_alg = SHA_256 | SHA_512

record platform =
  PBKDF2 :: "hash_alg \<Rightarrow> bytes \<Rightarrow> bytes \<Rightarrow> nat \<Rightarrow> nat \<Rightarrow> error + bytes"
  hash_digest :: "hash_alg \<Rightarrow> bytes \<Rightarrow> bytes"
  AES_GCM_encrypt :: "bytes \<Rightarrow> bytes \<Rightarrow> bytes \<Rightarrow> error + bytes"
  AES_GCM_decrypt :: "bytes \<Rightarrow> bytes \<Rightarrow> bytes \<Rightarrow> error + bytes"
  HMAC :: "hash_alg \<Rightarrow> bytes \<Rightarrow> bytes \<Rightarrow> bytes"
  JSON_parse :: "jsstring \<Rightarrow> error + jsval"
  JSON_stringify_value :: "jsval \<Rightarrow> jsstring"
  Date_getTime :: "jsval \<Rightarrow> int option"
  Number_toString :: "real \<Rightarrow> jsstring"

text \<open>
  \<open>crypto.getRandomValues(new Uint8Array(n))\<close> draws \<open>n\<close> bytes from the platform's random
  source, an unbounded tape of bytes of which each call consumes a prefix.
\<close>

type_synonym entropy = "nat \<Rightarrow> byte"

definition getRandomValues :: "nat \<Rightarrow> entropy \<Rightarrow> bytes \<times> entropy" where
  "getRandomValues n e = (map e [0..<n], (\<lambda>i. e (i + n)))"

subsection \<open>The Web Crypto calls the code makes\<close>

text \<open>
  A \<open>CryptoKey\<close> carries its algorithm, its raw key material, whether it may be exported
  and what it may be used for.  Each \<open>crypto.subtle\<close> call is the platform primitive behind
  the checks of the Web Cryptography API that depend on the arguments: the key usage, the
  \<open>extractable\<close> flag on export, and a non-empty key for HMAC.
\<close>

datatype key_algorithm = PBKDF2_key | AES_GCM_key nat | HMAC_key hash_alg

datatype key_usage = Usage_encrypt | Usage_decrypt | Usage_sign | Usage_deriveBits | Usage_deriveKey

record CryptoKey =
  key_alg :: key_algorithm
  key_data :: bytes
  key_extractable :: bool
  key_usages :: "key_usage list"

definition subtle_importKey ::
  "bytes \<Rightarrow> key_algorithm \<Rightarrow> bool \<Rightarrow> key_usage list \<Rightarrow> error + CryptoKey" where
  "subtle_importKey keyData alg extractable usages =
     (case alg of
        HMAC_key h \<Rightarrow>
          if keyData = [] then Inl (DOMException ''DataError'')
          else Inr \<lparr>key_alg = alg, key_data = keyData, key_extractable = extractable,
                    key_usages = usages\<rparr>
      | _ \<Rightarrow> Inr \<lparr>key_alg = alg, key_data = keyData, key_extractable = extractable,
                  key_usages = usages\<rparr>)"

definition subtle_exportKey :: "CryptoKey \<Rightarrow> error + bytes" where
  "subtle_exportKey k =
     (if key_extractable k then Inr (key_data k) else Inl (DOMException ''InvalidAccessError''))"

definition subtle_deriveKey ::
  "platform \<Rightarrow> bytes \<Rightarrow> nat \<Rightarrow> hash_alg \<Rightarrow> CryptoKey \<Rightarrow> nat \<Rightarrow> bool \<Rightarrow> key_usage list
     \<Rightarrow> error + CryptoKey" where
  \<comment> \<open>\<open>deriveKey({name: 'PBKDF2', salt, iterations, hash}, baseKey, {name: 'AES-GCM', length},
      extractable, usages)\<close>\<close>
  "subtle_deriveKey X salt iterations h baseKey len extractable usages =
     (if key_alg baseKey = PBKDF2_key \<and> Usage_deriveKey \<in> set (key_usages baseKey)
      then bind_err (PBKDF2 X h (key_data baseKey) salt iterations len)
             (\<lambda>bits. Inr \<lparr>key_alg = AES_GCM_key len, key_data = bits,
                           key_extractable = extractable, key_usages = usages\<rparr>)
      else Inl (DOMException ''InvalidAccessError''))"

definition subtle_digest :: "platform \<Rightarrow> hash_alg \<Rightarrow> bytes \<Rightarrow> bytes" where
  "subtle_digest X h data = hash_digest X h data"

definition subtle_encrypt :: "platform \<Rightarrow> bytes \<Rightarrow> CryptoKey \<Rightarrow> bytes \<Rightarrow> error + bytes" where
  \<comment> \<open>\<open>encrypt({name: 'AES-GCM', iv}, key, data)\<close>\<close>
  "subtle_encrypt X iv k data =
     (case key_alg k of
        AES_GCM_key n \<Rightarrow>
          if Usage_encrypt \<in> set (key_usages k) then AES_GCM_encrypt X (key_data k) iv data
          else Inl (DOMException ''InvalidAccessError'')
      | _ \<Rightarrow> Inl (DOMException ''InvalidAccessError''))"

definition subtle_decrypt :: "platform \<Rightarrow> bytes \<Rightarrow> CryptoKey \<Rightarrow> bytes \<Rightarrow> error + bytes" where
  \<comment> \<open>\<open>decrypt({name: 'AES-GCM', iv}, key, data)\<close>\<close>
  "subtle_decrypt X iv k data =
     (case key_alg k of
        AES_GCM_key n \<Rightarrow>
          if Usage_decrypt \<in> set (key_usages k) then AES_GCM_decrypt X (key_data k) iv data
          else Inl (DOMException ''InvalidAccessError'')
      | _ \<Rightarrow> Inl (DOMException ''InvalidAccessError''))"

definition subtle_sign :: "platform \<Rightarrow> CryptoKey \<Rightarrow> bytes \<Rightarrow> error + bytes" where
  \<comment> \<open>\<open>sign('HMAC', key, data)\<close>\<close>
  "subtle_sign X k data =
     (case key_alg k of
        HMAC_key h \<Rightarrow>
          if Usage_sign \<in> set (key_usages k) then Inr (HMAC X h (key_data k) data)
          else Inl (DOMException ''InvalidAccessError'')
      | _ \<Rightarrow> Inl (DOMException ''InvalidAccessError''))"

subsection \<open>Constants\<close>

definition KEY_LENGTH :: nat where "KEY_LENGTH = 256"
definition PBKDF2_ITERATIONS :: nat where "PBKDF2_ITERATIONS = 600000"
definition SALT_LENGTH :: nat where "SALT_LENGTH = 32"
definition IV_LENGTH :: nat where "IV_LENGTH = 12"
definition PEPPER :: jsstring where "PEPPER = js ''SecureSync-v1-pepper-2026''"

definition generateSalt :: "entropy \<Rightarrow> bytes \<times> entropy" where
  "generateSalt e = getRandomValues SALT_LENGTH e"

definition generateIV :: "entropy \<Rightarrow> bytes \<times> entropy" where
  "generateIV e = getRandomValues IV_LENGTH e"

subsection \<open>\<open>deriveKey\<close>\<close>

definition deriveKey :: "platform \<Rightarrow> jsstring \<Rightarrow> bytes \<Rightarrow> nat \<Rightarrow> error + CryptoKey" where
  "deriveKey X masterPassword salt iterations =
     (let pepperedPassword = masterPassword @ PEPPER;
          passwordBuffer = TextEncoder_encode pepperedPassword
      in bind_err (subtle_importKey passwordBuffer PBKDF2_key False
                     [Usage_deriveBits, Usage_deriveKey])
        (\<lambda>keyMaterial.
         bind_err (subtle_deriveKey X salt iterations SHA_256 keyMaterial KEY_LENGTH True
                     [Usage_encrypt, Usage_decrypt])
        (\<lambda>intermediateKey.
         bind_err (subtle_exportKey intermediateKey)
        (\<lambda>exportedKey.
         let round2Suffix = TextEncoder_encode (js ''round2'');
             combinedSalt = salt @ round2Suffix;
             secondSalt = subtle_digest X SHA_256 combinedSalt
         in bind_err (subtle_importKey exportedKey PBKDF2_key False [Usage_deriveKey])
        (\<lambda>secondKeyMaterial.
         subtle_deriveKey X secondSalt (iterations div 2) SHA_512 secondKeyMaterial KEY_LENGTH
           False [Usage_encrypt, Usage_decrypt])))))"

text \<open>
  The same derivation as the specification words it: the secret with the pepper appended
  is stretched by PBKDF2-HMAC-SHA-256 with the caller's salt and \<open>n\<close> iterations to 256 bits;
  that output is stretched again by PBKDF2-HMAC-SHA-512 with \<open>n div 2\<close> iterations and the
  salt SHA-256(salt \<parallel> "round2") to 256 bits.
\<close>

definition two_round_stretch :: "platform \<Rightarrow> jsstring \<Rightarrow> bytes \<Rightarrow> nat \<Rightarrow> error + bytes" where
  "two_round_stretch X secret salt n =
     bind_err (PBKDF2 X SHA_256 (TextEncoder_encode (secret @ PEPPER)) salt n 256)
       (\<lambda>round1.
          PBKDF2 X SHA_512 round1
            (hash_digest X SHA_256 (salt @ TextEncoder_encode (js ''round2''))) (n div 2) 256)"

subsection \<open>Base64 helpers\<close>

definition arrayBufferToBase64 :: "bytes \<Rightarrow> error + jsstring" where
  \<comment> \<open>the loop appends \<open>String.fromCharCode(bytes[i])\<close> for each byte; then \<open>btoa\<close>\<close>
  "arrayBufferToBase64 buffer = btoa (map ucast buffer)"

definition base64ToArrayBuffer :: "jsstring \<Rightarrow> error + bytes" where
  \<comment> \<open>\<open>atob\<close>; then the loop stores \<open>binary.charCodeAt(i)\<close> into a \<open>Uint8Array\<close>\<close>
  "base64ToArrayBuffer base64 = bind_err (atob base64) (\<lambda>binary. Inr (map ucast binary))"

subsection \<open>\<open>encrypt\<close> and \<open>decrypt\<close>\<close>

text \<open>
  The envelope \<open>{ciphertext, salt, iv, iterations}\<close>.  \<open>iterations\<close> is absent in envelopes
  written before the field existed.
\<close>

record envelope =
  ciphertext :: jsstring
  salt :: jsstring
  iv :: jsstring
  iterations :: "nat option"

definition encrypt ::
  "platform \<Rightarrow> jsstring \<Rightarrow> jsstring \<Rightarrow> entropy \<Rightarrow> (error + envelope) \<times> entropy" where
  "encrypt X plaintext masterPassword e =
     (let data = TextEncoder_encode plaintext;
          (salt_bytes, e1) = generateSalt e;
          (iv_bytes, e2) = generateIV e1
      in (bind_err (deriveKey X masterPassword salt_bytes PBKDF2_ITERATIONS)
         (\<lambda>key.
          bind_err (subtle_encrypt X iv_bytes key data)
         (\<lambda>ct.
          bind_err (arrayBufferToBase64 ct)
         (\<lambda>ct64.
          bind_err (arrayBufferToBase64 salt_bytes)
         (\<lambda>salt64.
          bind_err (arrayBufferToBase64 iv_bytes)
         (\<lambda>iv64.
          Inr \<lparr>ciphertext = ct64, salt = salt64, iv = iv64,
                iterations = Some PBKDF2_ITERATIONS\<rparr>))))), e2))"

definition decryption_failed :: error where
  "decryption_failed = Error ''Decryption failed. Invalid password or corrupted data.''"

definition decrypt :: "platform \<Rightarrow> envelope \<Rightarrow> jsstring \<Rightarrow> error + jsstring" where
  "decrypt X encryptedData masterPassword =
     bind_err (base64ToArrayBuffer (ciphertext encryptedData))
    (\<lambda>ciphertextBuffer.
     bind_err (base64ToArrayBuffer (salt encryptedData))
    (\<lambda>saltBuffer.
     bind_err (base64ToArrayBuffer (iv encryptedData))
    (\<lambda>ivBuffer.
     let iterCount = (case iterations encryptedData of
                        None \<Rightarrow> 100000
                      | Some n \<Rightarrow> if n = 0 then 100000 else n)
     in bind_err (deriveKey X masterPassword saltBuffer iterCount)
    (\<lambda>key.
     case subtle_decrypt X ivBuffer key ciphertextBuffer of
       Inl err \<Rightarrow> Inl decryption_failed
     | Inr decrypted \<Rightarrow> Inr (TextDecoder_decode decrypted)))))"

definition encryptObject ::
  "platform \<Rightarrow> jsval \<Rightarrow> jsstring \<Rightarrow> entropy \<Rightarrow> (error + envelope) \<times> entropy" where
  "encryptObject X obj masterPassword e =
     (let json = JSON_stringify_value X obj in encrypt X json masterPassword e)"

definition decryptObject :: "platform \<Rightarrow> envelope \<Rightarrow> jsstring \<Rightarrow> error + jsval" where
  "decryptObject X encryptedData masterPassword =
     bind_err (decrypt X encryptedData masterPassword) (\<lambda>json. JSON_parse X json)"

subsection \<open>\<open>hashPassword\<close>, \<open>verifyPassword\<close> and \<open>constantTimeCompare\<close>\<close>

text \<open>
  \<open>value.key\<close> for a key that is neither an index, nor \<open>length\<close>, nor inherited from a
  prototype (here \<open>salt\<close> and \<open>hash\<close>): a \<open>TypeError\<close> on \<open>null\<close> and \<open>undefined\<close>, the own
  property of an object, \<open>undefined\<close> on every other value.
\<close>

definition get_member :: "jsval \<Rightarrow> jsstring \<Rightarrow> error + jsval" where
  "get_member v k =
     (case v of
        JUndefined \<Rightarrow> Inl TypeError
      | JNull \<Rightarrow> Inl TypeError
      | JObj a props \<Rightarrow> Inr (obj_get props k)
      | _ \<Rightarrow> Inr JUndefined)"

text \<open>
  The conversion to a string that \<open>atob\<close> applies to its argument.  An array is joined
  with commas, \<open>null\<close> and \<open>undefined\<close> elements giving the empty string.
\<close>

fun join_comma :: "jsstring list \<Rightarrow> jsstring" where
  "join_comma [] = []"
| "join_comma [s] = s"
| "join_comma (s # t # rest) = s @ [0x2C] @ join_comma (t # rest)"

fun js_ToString :: "platform \<Rightarrow> jsval \<Rightarrow> jsstring" where
  "js_ToString X JUndefined = js ''undefined''"
| "js_ToString X JNull = js ''null''"
| "js_ToString X (JBool b) = (if b then js ''true'' else js ''false'')"
| "js_ToString X (JNum r) = Number_toString X r"
| "js_ToString X (JStr s) = s"
| "js_ToString X (JArr a vs) =
     join_comma (map (\<lambda>v. if v = JUndefined \<or> v = JNull then [] else js_ToString X v) vs)"
| "js_ToString X (JObj a props) = js ''[object Object]''"

text \<open>
  The accumulator of \<open>constantTimeCompare\<close> is a 32-bit integer, as the operands of \<open>|=\<close>
  and \<open>^\<close> are.  The loop runs over \<open>i = 0 .. a.length - 1\<close>.
\<close>

function constantTimeCompare_loop :: "jsstring \<Rightarrow> jsstring \<Rightarrow> nat \<Rightarrow> 32 word \<Rightarrow> 32 word" where
  "constantTimeCompare_loop a b i result =
     (if i < length a
      then constantTimeCompare_loop a b (i + 1) (result OR (ucast (a ! i) XOR ucast (b ! i)))
      else result)"
  by pat_completeness auto
termination
  by (relation "measure (\<lambda>(a, b, i, result). length a - i)") auto

declare constantTimeCompare_loop.simps [simp del]

text \<open>
  The second argument is whatever \<open>hashData.hash\<close> holds.  On \<open>null\<close> and \<open>undefined\<close>
  reading \<open>b.length\<close> throws.  A boolean or a number has no \<open>length\<close>, so the length test
  returns \<open>false\<close>.  An array, or an object with a numeric \<open>length\<close> property, passes the
  length test when that number equals \<open>a.length\<close>; it has no callable \<open>charCodeAt\<close>, so
  the first round of the loop throws, and with \<open>a\<close> empty the loop is skipped and the
  result is \<open>true\<close>.
\<close>

definition constantTimeCompare :: "jsstring \<Rightarrow> jsval \<Rightarrow> error + bool" where
  "constantTimeCompare a b =
     (case b of
        JUndefined \<Rightarrow> Inl TypeError
      | JNull \<Rightarrow> Inl TypeError
      | JStr s \<Rightarrow>
          if length a \<noteq> length s then Inr False
          else Inr (constantTimeCompare_loop a s 0 0 = 0)
      | JArr r vs \<Rightarrow>
          if length a \<noteq> length vs then Inr False
          else if 0 < length a then Inl TypeError else Inr True
      | JObj r props \<Rightarrow>
          (case obj_get props (js ''length'') of
             JNum n \<Rightarrow>
               if real (length a) \<noteq> n then Inr False
               else if 0 < length a then Inl TypeError else Inr True
           | _ \<Rightarrow> Inr False)
      | _ \<Rightarrow> Inr False)"

definition hashPassword :: "platform \<Rightarrow> jsstring \<Rightarrow> entropy \<Rightarrow> (error + jsstring) \<times> entropy" where
  "hashPassword X password e =
     (let pepperedPassword = password @ PEPPER;
          data = TextEncoder_encode pepperedPassword;
          (salt_bytes, e1) = generateSalt e
      in (bind_err (subtle_importKey salt_bytes (HMAC_key SHA_512) False [Usage_sign])
         (\<lambda>key.
          bind_err (subtle_sign X key data)
         (\<lambda>signature.
          bind_err (arrayBufferToBase64 salt_bytes)
         (\<lambda>salt64.
          bind_err (arrayBufferToBase64 signature)
         (\<lambda>hash64.
          Inr (JSON_stringify_value X
                 (object_value
                    [(js ''salt'', JStr salt64), (js ''hash'', JStr hash64),
                     (js ''algorithm'', JStr (js ''HMAC-SHA512'')),
                     (js ''version'', JNum 1)])))))), e1))"

definition verifyPassword_try :: "platform \<Rightarrow> jsstring \<Rightarrow> jsstring \<Rightarrow> error + bool" where
  \<comment> \<open>the body of the \<open>try\<close> block\<close>
  "verifyPassword_try X password storedHash =
     bind_err (JSON_parse X storedHash)
    (\<lambda>hashData.
     let pepperedPassword = password @ PEPPER;
         data = TextEncoder_encode pepperedPassword
     in bind_err (get_member hashData (js ''salt''))
    (\<lambda>salt_value.
     bind_err (base64ToArrayBuffer (js_ToString X salt_value))
    (\<lambda>salt_bytes.
     bind_err (subtle_importKey salt_bytes (HMAC_key SHA_512) False [Usage_sign])
    (\<lambda>key.
     bind_err (subtle_sign X key data)
    (\<lambda>signature.
     bind_err (arrayBufferToBase64 signature)
    (\<lambda>computedHash.
     bind_err (get_member hashData (js ''hash''))
    (\<lambda>hash_value. constantTimeCompare computedHash hash_value)))))))"

definition verifyPassword :: "platform \<Rightarrow> jsstring \<Rightarrow> jsstring \<Rightarrow> error + bool" where
  "verifyPassword X password storedHash =
     (case verifyPassword_try X password storedHash of
        Inl err \<Rightarrow> Inr False
      | Inr matches \<Rightarrow> Inr matches)"

section \<open>The vault (src/crypto/vault.js) and local storage (src/storage/local-storage.js)\<close>

text \<open>
  The text of vault.js is the second part of the file src/popup/popup-modal-handlers.js.
\<close>

subsection \<open>State\<close>

text \<open>
  The decrypted vault \<open>{passwords, bookmarks, metadata}\<close>; every item is an object.
\<close>

record vault =
  passwords :: "jsobj list"
  bookmarks :: "jsobj list"
  metadata :: jsobj

definition vault_value :: "vault \<Rightarrow> jsval" where
  \<comment> \<open>the vault as the object handed to \<open>JSON.stringify\<close>\<close>
  "vault_value v =
     object_value
       [(js ''passwords'', array_value (map object_value (passwords v))),
        (js ''bookmarks'', array_value (map object_value (bookmarks v))),
        (js ''metadata'', object_value (metadata v))]"

text \<open>
  \<open>Browser.storage.local\<close>, one field per key the code uses; a key never written is
  \<open>None\<close>.  Reads and writes of the storage area succeed.
\<close>

record backup =
  backup_timestamp :: jsstring
  backup_data :: envelope

record queue_item =
  queue_type :: jsstring
  queue_action :: jsstring
  queue_data :: jsobj
  queuedAt :: jsstring

record storage =
  auth_token :: "jsstring option"
  last_sync_timestamp :: "jsstring option"
  sync_queue :: "queue_item list option"
  user_settings :: "jsobj option"
  vault_backup :: "backup list option"
  secure_vault :: "envelope option"

text \<open>
  The state of the extension: the module variables of vault.js (\<open>vaultCache\<close>,
  \<open>masterPasswordCache\<close>, \<open>autoLockTimer\<close>, the pending timeout in milliseconds), the
  module variable \<open>isSyncing\<close> of sync-service.js, the storage area, and the sources the
  code reads from its environment: random bytes, the successive results of
  \<open>new Date().toISOString()\<close> and of \<open>crypto.randomUUID()\<close>.
\<close>

record app_state =
  vaultCache :: "vault option"
  masterPasswordCache :: "jsstring option"
  autoLockTimer :: "nat option"
  isSyncing :: bool
  local_storage :: storage
  random_source :: entropy
  clock :: "nat \<Rightarrow> jsstring"
  uuid_source :: "nat \<Rightarrow> jsstring"

definition Date_now_ISO :: "app_state \<Rightarrow> jsstring \<times> app_state" where
  "Date_now_ISO st = (clock st 0, st\<lparr>clock := (\<lambda>n. clock st (Suc n))\<rparr>)"

definition randomUUID :: "app_state \<Rightarrow> jsstring \<times> app_state" where
  "randomUUID st = (uuid_source st 0, st\<lparr>uuid_source := (\<lambda>n. uuid_source st (Suc n))\<rparr>)"

subsection \<open>Storage helpers\<close>

definition saveLastSyncTimestamp :: "jsstring \<Rightarrow> app_state \<Rightarrow> app_state" where
  "saveLastSyncTimestamp timestamp st =
     st\<lparr>local_storage := (local_storage st)\<lparr>last_sync_timestamp := Some timestamp\<rparr>\<rparr>"

definition getLastSyncTimestamp :: "app_state \<Rightarrow> jsstring option" where
  \<comment> \<open>\<open>result[LAST_SYNC] || null\<close>: the empty string is falsy\<close>
  "getLastSyncTimestamp st =
     (case last_sync_timestamp (local_storage st) of
        None \<Rightarrow> None
      | Some t \<Rightarrow> if t = [] then None else Some t)"

definition getSyncQueue :: "app_state \<Rightarrow> queue_item list" where
  "getSyncQueue st = (case sync_queue (local_storage st) of None \<Rightarrow> [] | Some q \<Rightarrow> q)"

definition clearSyncQueue :: "app_state \<Rightarrow> app_state" where
  "clearSyncQueue st = st\<lparr>local_storage := (local_storage st)\<lparr>sync_queue := Some []\<rparr>\<rparr>"

definition addToSyncQueue :: "jsstring \<Rightarrow> jsstring \<Rightarrow> jsobj \<Rightarrow> app_state \<Rightarrow> app_state" where
  "addToSyncQueue type action data st =
     (let queue = getSyncQueue st;
          (now, st1) = Date_now_ISO st;
          queue' = queue @ [\<lparr>queue_type = type, queue_action = action, queue_data = data,
                             queuedAt = now\<rparr>]
      in st1\<lparr>local_storage := (local_storage st1)\<lparr>sync_queue := Some queue'\<rparr>\<rparr>)"

definition default_settings :: jsobj where
  "default_settings =
     [(js ''autoLockMinutes'', JNum 15), (js ''syncFrequencyMinutes'', JNum 5),
      (js ''conflictResolution'', JStr (js ''last-write-wins'')), (js ''darkMode'', JBool True),
      (js ''autoFillEnabled'', JBool True)]"

definition getSettings :: "app_state \<Rightarrow> jsobj" where
  "getSettings st =
     (case user_settings (local_storage st) of None \<Rightarrow> default_settings | Some s \<Rightarrow> s)"

definition slice_last :: "nat \<Rightarrow> 'a list \<Rightarrow> 'a list" where
  \<comment> \<open>\<open>xs.slice(-n)\<close>\<close>
  "slice_last n xs = drop (length xs - n) xs"

definition createBackup :: "envelope \<Rightarrow> app_state \<Rightarrow> app_state" where
  "createBackup encryptedVault st =
     (let backups = (case vault_backup (local_storage st) of None \<Rightarrow> [] | Some b \<Rightarrow> b);
          (now, st1) = Date_now_ISO st;
          newBackup = \<lparr>backup_timestamp = now, backup_data = encryptedVault\<rparr>;
          recentBackups = slice_last 5 (backups @ [newBackup])
      in st1\<lparr>local_storage := (local_storage st1)\<lparr>vault_backup := Some recentBackups\<rparr>\<rparr>)"

subsection \<open>Vault operations\<close>

definition AUTO_LOCK_MINUTES :: nat where "AUTO_LOCK_MINUTES = 15"

definition vault_locked_error :: error where
  "vault_locked_error = Error ''Vault is locked. Please unlock first.''"

definition password_not_found :: error where
  "password_not_found = Error ''Password not found''"

definition bookmark_not_found :: error where
  "bookmark_not_found = Error ''Bookmark not found''"

definition unlocked :: "app_state \<Rightarrow> (vault \<times> jsstring) option" where
  \<comment> \<open>\<open>ensureUnlocked\<close> throws when \<open>!vaultCache || !masterPasswordCache\<close>; the empty
      master password is falsy\<close>
  "unlocked st =
     (case (vaultCache st, masterPasswordCache st) of
        (Some v, Some pw) \<Rightarrow> if pw = [] then None else Some (v, pw)
      | _ \<Rightarrow> None)"

definition clearAutoLockTimer :: "app_state \<Rightarrow> app_state" where
  "clearAutoLockTimer st = st\<lparr>autoLockTimer := None\<rparr>"

definition resetAutoLockTimer :: "app_state \<Rightarrow> app_state" where
  "resetAutoLockTimer st =
     (clearAutoLockTimer st)\<lparr>autoLockTimer := Some (AUTO_LOCK_MINUTES * 60 * 1000)\<rparr>"

definition saveVault :: "platform \<Rightarrow> app_state \<Rightarrow> (error + unit) \<times> app_state" where
  "saveVault X st =
     (case unlocked st of
        None \<Rightarrow> (Inl vault_locked_error, st)
      | Some (v, pw) \<Rightarrow>
          (let (r, e') = encryptObject X (vault_value v) pw (random_source st);
               st1 = st\<lparr>random_source := e'\<rparr>
           in case r of
                Inl err \<Rightarrow> (Inl err, st1)
              | Inr encrypted \<Rightarrow>
                  (let st2 = st1\<lparr>local_storage :=
                                    (local_storage st1)\<lparr>secure_vault := Some encrypted\<rparr>\<rparr>
                   in (Inr (), createBackup encrypted st2))))"

definition getPasswords :: "app_state \<Rightarrow> (error + jsobj list) \<times> app_state" where
  "getPasswords st =
     (case unlocked st of
        None \<Rightarrow> (Inl vault_locked_error, st)
      | Some (v, pw) \<Rightarrow> (Inr (passwords v), resetAutoLockTimer st))"

definition getBookmarks :: "app_state \<Rightarrow> (error + jsobj list) \<times> app_state" where
  "getBookmarks st =
     (case unlocked st of
        None \<Rightarrow> (Inl vault_locked_error, st)
      | Some (v, pw) \<Rightarrow> (Inr (bookmarks v), resetAutoLockTimer st))"

text \<open>
  The object literal of \<open>addPassword\<close> and \<open>addBookmark\<close>, its properties written in source
  order: \<open>id\<close>, the spread of the caller's entry, \<open>createdAt\<close>, \<open>updatedAt\<close>, \<open>deletedAt\<close>.
\<close>

definition new_entry :: "jsstring \<Rightarrow> jsobj \<Rightarrow> jsstring \<Rightarrow> jsstring \<Rightarrow> jsobj" where
  "new_entry uuid entry created updated =
     obj_set (js ''deletedAt'') JNull
       (obj_set (js ''updatedAt'') (JStr updated)
         (obj_set (js ''createdAt'') (JStr created)
           (obj_spread (obj_set (js ''id'') (JStr uuid) []) entry)))"

definition addPassword :: "platform \<Rightarrow> jsobj \<Rightarrow> app_state \<Rightarrow> (error + jsobj) \<times> app_state" where
  "addPassword X passwordEntry st =
     (case unlocked st of
        None \<Rightarrow> (Inl vault_locked_error, st)
      | Some (v, pw) \<Rightarrow>
          (let (uuid, st1) = randomUUID st;
               (created, st2) = Date_now_ISO st1;
               (updated, st3) = Date_now_ISO st2;
               entry = new_entry uuid passwordEntry created updated;
               st4 = st3\<lparr>vaultCache := Some (v\<lparr>passwords := passwords v @ [entry]\<rparr>)\<rparr>;
               (saved, st5) = saveVault X st4
           in case saved of
                Inl err \<Rightarrow> (Inl err, st5)
              | Inr u \<Rightarrow> (Inr entry, resetAutoLockTimer st5)))"

definition addBookmark :: "platform \<Rightarrow> jsobj \<Rightarrow> app_state \<Rightarrow> (error + jsobj) \<times> app_state" where
  "addBookmark X bookmarkEntry st =
     (case unlocked st of
        None \<Rightarrow> (Inl vault_locked_error, st)
      | Some (v, pw) \<Rightarrow>
          (let (uuid, st1) = randomUUID st;
               (created, st2) = Date_now_ISO st1;
               (updated, st3) = Date_now_ISO st2;
               entry = new_entry uuid bookmarkEntry created updated;
               st4 = st3\<lparr>vaultCache := Some (v\<lparr>bookmarks := bookmarks v @ [entry]\<rparr>)\<rparr>;
               (saved, st5) = saveVault X st4
           in case saved of
                Inl err \<Rightarrow> (Inl err, st5)
              | Inr u \<Rightarrow> (Inr entry, resetAutoLockTimer st5)))"

definition updated_entry :: "jsobj \<Rightarrow> jsobj \<Rightarrow> jsstring \<Rightarrow> jsobj" where
  \<comment> \<open>\<open>{ ...old, ...updates, updatedAt: now }\<close>\<close>
  "updated_entry old updates now =
     obj_set (js ''updatedAt'') (JStr now) (obj_spread (obj_spread [] old) updates)"

definition updatePassword ::
  "platform \<Rightarrow> jsval \<Rightarrow> jsobj \<Rightarrow> app_state \<Rightarrow> (error + jsobj) \<times> app_state" where
  "updatePassword X ident updates st =
     (case unlocked st of
        None \<Rightarrow> (Inl vault_locked_error, st)
      | Some (v, pw) \<Rightarrow>
          (case findIndex (\<lambda>p. strict_eq (obj_get p (js ''id'')) ident) (passwords v) of
             None \<Rightarrow> (Inl password_not_found, st)
           | Some index \<Rightarrow>
               (let (now, st1) = Date_now_ISO st;
                    entry = updated_entry (passwords v ! index) updates now;
                    st2 = st1\<lparr>vaultCache := Some (v\<lparr>passwords := (passwords v)[index := entry]\<rparr>)\<rparr>;
                    (saved, st3) = saveVault X st2
                in case saved of
                     Inl err \<Rightarrow> (Inl err, st3)
                   | Inr u \<Rightarrow> (Inr entry, resetAutoLockTimer st3))))"

definition deletePassword ::
  "platform \<Rightarrow> jsval \<Rightarrow> app_state \<Rightarrow> (error + unit) \<times> app_state" where
  "deletePassword X ident st =
     (case unlocked st of
        None \<Rightarrow> (Inl vault_locked_error, st)
      | Some (v, pw) \<Rightarrow>
          (case findIndex (\<lambda>p. strict_eq (obj_get p (js ''id'')) ident) (passwords v) of
             None \<Rightarrow> (Inl password_not_found, st)
           | Some index \<Rightarrow>
               (let (now, st1) = Date_now_ISO st;
                    entry = obj_set (js ''deletedAt'') (JStr now) (passwords v ! index);
                    st2 = st1\<lparr>vaultCache := Some (v\<lparr>passwords := (passwords v)[index := entry]\<rparr>)\<rparr>;
                    (saved, st3) = saveVault X st2
                in case saved of
                     Inl err \<Rightarrow> (Inl err, st3)
                   | Inr u \<Rightarrow> (Inr (), resetAutoLockTimer st3))))"

definition updateBookmark ::
  "platform \<Rightarrow> jsval \<Rightarrow> jsobj \<Rightarrow> app_state \<Rightarrow> (error + jsobj) \<times> app_state" where
  "updateBookmark X ident updates st =
     (case unlocked st of
        None \<Rightarrow> (Inl vault_locked_error, st)
      | Some (v, pw) \<Rightarrow>
          (case findIndex (\<lambda>b. strict_eq (obj_get b (js ''id'')) ident) (bookmarks v) of
             None \<Rightarrow> (Inl bookmark_not_found, st)
           | Some index \<Rightarrow>
               (let (now, st1) = Date_now_ISO st;
                    entry = updated_entry (bookmarks v ! index) updates now;
                    st2 = st1\<lparr>vaultCache := Some (v\<lparr>bookmarks := (bookmarks v)[index := entry]\<rparr>)\<rparr>;
                    (saved, st3) = saveVault X st2
                in case saved of
                     Inl err \<Rightarrow> (Inl err, st3)
                   | Inr u \<Rightarrow> (Inr entry, resetAutoLockTimer st3))))"

definition deleteBookmark ::
  "platform \<Rightarrow> jsval \<Rightarrow> app_state \<Rightarrow> (error + unit) \<times> app_state" where
  "deleteBookmark X ident st =
     (case unlocked st of
        None \<Rightarrow> (Inl vault_locked_error, st)
      | Some (v, pw) \<Rightarrow>
          (case findIndex (\<lambda>b. strict_eq (obj_get b (js ''id'')) ident) (bookmarks v) of
             None \<Rightarrow> (Inl bookmark_not_found, st)
           | Some index \<Rightarrow>
               (let (now, st1) = Date_now_ISO st;
                    entry = obj_set (js ''deletedAt'') (JStr now) (bookmarks v ! index);
                    st2 = st1\<lparr>vaultCache := Some (v\<lparr>bookmarks := (bookmarks v)[index := entry]\<rparr>)\<rparr>;
                    (saved, st3) = saveVault X st2
                in case saved of
                     Inl err \<Rightarrow> (Inl err, st3)
                   | Inr u \<Rightarrow> (Inr (), resetAutoLockTimer st3))))"

section \<open>The sync service (src/sync/sync-service.js)\<close>

text \<open>
  The texts of sync-service.js and of api-client.js are the second and third part of the
  file src/crypto/encryption.js; \<open>isAuthenticated\<close> is from auth-service.js.
\<close>

subsection \<open>The remote store\<close>

text \<open>
  The four calls of api-client.js reach the backend over the network.  What they return
  or throw is given by a \<open>remote\<close>: the answer to a fetch as a function of the \<open>since\<close>
  argument, the answer to an upload as a function of the uploaded list.
\<close>

record remote =
  fetchPasswords :: "jsstring option \<Rightarrow> error + jsobj list"
  uploadPasswords :: "jsobj list \<Rightarrow> error + unit"
  fetchBookmarks :: "jsstring option \<Rightarrow> error + jsobj list"
  uploadBookmarks :: "jsobj list \<Rightarrow> error + unit"

definition isAuthenticated :: "app_state \<Rightarrow> bool" where
  \<comment> \<open>\<open>!!accessToken\<close>\<close>
  "isAuthenticated st =
     (case auth_token (local_storage st) of None \<Rightarrow> False | Some t \<Rightarrow> t \<noteq> [])"

text \<open>
  What the resolver reads from an item of the vault.  \<open>item.id\<close> is used as a key of a
  \<open>Map\<close> and a member of a \<open>Set\<close>, which tell a string or number id by its value and an
  object or array id by its reference.
\<close>

definition vault_item_view :: "platform \<Rightarrow> (jsobj, map_key, jsstring) item_view" where
  "vault_item_view X =
     \<lparr>item_id = (\<lambda>item. SameValueZero_key (obj_get item (js ''id''))),
      getTime = (\<lambda>item. Date_getTime X (obj_get item (js ''updatedAt''))),
      JSON_stringify = (\<lambda>item. JSON_stringify_value X (object_value item))\<rparr>"

record sync_counts =
  synced :: nat
  conflict_count :: nat

datatype sync_outcome =
    In_progress
  | Success jsstring sync_counts sync_counts

subsection \<open>\<open>syncPasswords\<close>, \<open>syncBookmarks\<close>, \<open>processSyncQueue\<close>\<close>

definition syncPasswords ::
  "platform \<Rightarrow> remote \<Rightarrow> jsstring option \<Rightarrow> jsval \<Rightarrow> app_state
     \<Rightarrow> (error + sync_counts) \<times> app_state" where
  "syncPasswords X R lastSync conflictResolution st =
     (case getPasswords st of
        (Inl err, st1) \<Rightarrow> (Inl err, st1)
      | (Inr localPasswords, st1) \<Rightarrow>
          (case fetchPasswords R lastSync of
             Inl err \<Rightarrow> (Inl err, st1)
           | Inr remotePasswords \<Rightarrow>
               (let result = mergeItems (vault_item_view X) localPasswords remotePasswords
                               conflictResolution
                in case uploadPasswords R (merged result) of
                     Inl err \<Rightarrow> (Inl err, st1)
                   | Inr u \<Rightarrow>
                       (Inr \<lparr>synced = length (merged result),
                              conflict_count = length (conflicts result)\<rparr>, st1))))"

definition syncBookmarks ::
  "platform \<Rightarrow> remote \<Rightarrow> jsstring option \<Rightarrow> jsval \<Rightarrow> app_state
     \<Rightarrow> (error + sync_counts) \<times> app_state" where
  "syncBookmarks X R lastSync conflictResolution st =
     (case getBookmarks st of
        (Inl err, st1) \<Rightarrow> (Inl err, st1)
      | (Inr localBookmarks, st1) \<Rightarrow>
          (case fetchBookmarks R lastSync of
             Inl err \<Rightarrow> (Inl err, st1)
           | Inr remoteBookmarks \<Rightarrow>
               (let result = mergeItems (vault_item_view X) localBookmarks remoteBookmarks
                               conflictResolution
                in case uploadBookmarks R (merged result) of
                     Inl err \<Rightarrow> (Inl err, st1)
                   | Inr u \<Rightarrow>
                       (Inr \<lparr>synced = length (merged result),
                              conflict_count = length (conflicts result)\<rparr>, st1))))"

text \<open>
  One round of the queue loop.  Whatever the vault operation throws is caught and logged;
  the state it has reached stays.
\<close>

definition process_queue_item :: "platform \<Rightarrow> queue_item \<Rightarrow> app_state \<Rightarrow> app_state" where
  "process_queue_item X item st =
     (if queue_type item = js ''password'' then
        (if queue_action item = js ''add'' then snd (addPassword X (queue_data item) st)
         else if queue_action item = js ''update'' then
           snd (updatePassword X (obj_get (queue_data item) (js ''id'')) (queue_data item) st)
         else st)
      else if queue_type item = js ''bookmark'' then
        (if queue_action item = js ''add'' then snd (addBookmark X (queue_data item) st)
         else if queue_action item = js ''update'' then
           snd (updateBookmark X (obj_get (queue_data item) (js ''id'')) (queue_data item) st)
         else st)
      else st)"

definition processSyncQueue :: "platform \<Rightarrow> app_state \<Rightarrow> app_state" where
  "processSyncQueue X st =
     (let queue = getSyncQueue st
      in if length queue = 0 then st
         else clearSyncQueue (foldl (\<lambda>s item. process_queue_item X item s) st queue))"

subsection \<open>\<open>performSync\<close>\<close>

definition not_authenticated :: error where
  "not_authenticated = Error ''Not authenticated. Please login first.''"

definition performSync_try ::
  "platform \<Rightarrow> remote \<Rightarrow> app_state \<Rightarrow> (error + sync_outcome) \<times> app_state" where
  \<comment> \<open>the body of the \<open>try\<close> block\<close>
  "performSync_try X R st =
     (let lastSync = getLastSyncTimestamp st;
          settings = getSettings st;
          conflictResolution = obj_get settings (js ''conflictResolution'')
      in case syncPasswords X R lastSync conflictResolution st of
           (Inl err, st1) \<Rightarrow> (Inl err, st1)
         | (Inr passwordResult, st1) \<Rightarrow>
             (case syncBookmarks X R lastSync conflictResolution st1 of
                (Inl err, st2) \<Rightarrow> (Inl err, st2)
              | (Inr bookmarkResult, st2) \<Rightarrow>
                  (let st3 = processSyncQueue X st2;
                       (now, st4) = Date_now_ISO st3;
                       st5 = saveLastSyncTimestamp now st4;
                       st6 = st5\<lparr>isSyncing := False\<rparr>
                   in (Inr (Success now passwordResult bookmarkResult), st6))))"

definition performSync ::
  "platform \<Rightarrow> remote \<Rightarrow> app_state \<Rightarrow> (error + sync_outcome) \<times> app_state" where
  \<comment> \<open>one call, run from start to end with nothing else in between\<close>
  "performSync X R st =
     (if isSyncing st then (Inr In_progress, st)
      else if \<not> isAuthenticated st then (Inl not_authenticated, st)
      else (let st1 = st\<lparr>isSyncing := True\<rparr>
            in case performSync_try X R st1 of
                 (Inl err, st2) \<Rightarrow> (Inl err, st2\<lparr>isSyncing := False\<rparr>)
               | (Inr outcome, st2) \<Rightarrow> (Inr outcome, st2)))"

definition isSyncInProgress :: "app_state \<Rightarrow> bool" where
  "isSyncInProgress st = isSyncing st"

definition queueForSync :: "jsstring \<Rightarrow> jsstring \<Rightarrow> jsobj \<Rightarrow> app_state \<Rightarrow> app_state" where
  "queueForSync type action data st = addToSyncQueue type action data st"

subsection \<open>Calls in progress\<close>

text \<open>
  \<open>performSync\<close> is an \<open>async\<close> function: it runs until an \<open>await\<close>, gives control back and
  is resumed later, and other calls may run in between.  A call in progress is a \<open>task\<close>.
  \<open>performSync_step\<close> runs a task up to a suspension: from the call to
  \<open>await isAuthenticated()\<close>; from there, with the answer, to the first \<open>await\<close> inside the
  \<open>try\<close> block; from there to the end of the pass.
\<close>

datatype task =
    Called
  | Awaiting_isAuthenticated
  | In_try_block
  | Settled "error + sync_outcome"

definition performSync_step ::
  "platform \<Rightarrow> remote \<Rightarrow> task \<Rightarrow> app_state \<Rightarrow> task \<times> app_state" where
  "performSync_step X R t st =
     (case t of
        Called \<Rightarrow>
          if isSyncing st then (Settled (Inr In_progress), st)
          else (Awaiting_isAuthenticated, st)
      | Awaiting_isAuthenticated \<Rightarrow>
          if \<not> isAuthenticated st then (Settled (Inl not_authenticated), st)
          else (In_try_block, st\<lparr>isSyncing := True\<rparr>)
      | In_try_block \<Rightarrow>
          (case performSync_try X R st of
             (Inl err, st1) \<Rightarrow> (Settled (Inl err), st1\<lparr>isSyncing := False\<rparr>)
           | (Inr outcome, st1) \<Rightarrow> (Settled (Inr outcome), st1))
      | Settled r \<Rightarrow> (t, st))"

text \<open>
  Several calls in progress: a schedule names, step by step, the task that runs next.
\<close>

fun run_schedule ::
  "platform \<Rightarrow> remote \<Rightarrow> nat list \<Rightarrow> task list \<times> app_state \<Rightarrow> task list \<times> app_state" where
  "run_schedule X R [] (tasks, st) = (tasks, st)"
| "run_schedule X R (i # schedule) (tasks, st) =
     (if i < length tasks
      then (let (t, st1) = performSync_step X R (tasks ! i) st
            in run_schedule X R schedule (tasks[i := t], st1))
      else run_schedule X R schedule (tasks, st))"

subsection \<open>Remote failures\<close>

text \<open>
  The first error the remote store answers during a pass over the vault \<open>v\<close>, in the
  order in which the pass calls it: fetch and upload of the passwords, then fetch and upload
  of the bookmarks.  \<open>None\<close> when all four calls succeed.
\<close>

definition remote_error ::
  "platform \<Rightarrow> remote \<Rightarrow> vault \<Rightarrow> jsstring option \<Rightarrow> jsval \<Rightarrow> error option" where
  "remote_error X R v lastSync conflictResolution =
     (case fetchPasswords R lastSync of
        Inl err \<Rightarrow> Some err
      | Inr remotePasswords \<Rightarrow>
     (case uploadPasswords R (merged (mergeItems (vault_item_view X) (passwords v)
                                        remotePasswords conflictResolution)) of
        Inl err \<Rightarrow> Some err
      | Inr u \<Rightarrow>
     (case fetchBookmarks R lastSync of
        Inl err \<Rightarrow> Some err
      | Inr remoteBookmarks \<Rightarrow>
     (case uploadBookmarks R (merged (mergeItems (vault_item_view X) (bookmarks v)
                                        remoteBookmarks conflictResolution)) of
        Inl err \<Rightarrow> Some err
      | Inr u \<Rightarrow> None))))"

section \<open>An example platform and state\<close>

text \<open>
  A small platform on which the definitions can be evaluated.  Its functions are stand-ins
  with the interface of the browser's primitives, not the browser's cryptography: the
  cipher appends a tag made from the key and checks it on decryption, PBKDF2 rejects zero
  iterations and a length that is not a whole number of bytes, \<open>JSON.parse\<close> knows a single document.
\<close>

definition pad_to :: "nat \<Rightarrow> bytes \<Rightarrow> bytes" where
  "pad_to n bs = take n (bs @ replicate n 0)"

definition example_hash_record :: jsval where
  "example_hash_record =
     JObj 1 [(js ''salt'', JStr (js ''AQID'')),
           (js ''hash'',
            JStr (js (''AQIDcHdTZWN1cmVTeW5jLXYxLXBlcHBlci0yMDI2AAAAAAAAAAAAAAAAAAAA''
                      @ ''AAAAAAAAAAAAAAAAAAAAAAAAAA==''))),
           (js ''algorithm'', JStr (js ''HMAC-SHA512'')), (js ''version'', JNum 1)]"

definition example_platform :: platform where
  "example_platform =
     \<lparr>PBKDF2 = (\<lambda>h password salt n len.
         if n = 0 \<or> len mod 8 \<noteq> 0 then Inl (DOMException ''OperationError'')
         else Inr (pad_to (len div 8) (password @ salt))),
      hash_digest = (\<lambda>h data. pad_to 32 data),
      AES_GCM_encrypt = (\<lambda>key iv data. Inr (data @ pad_to 16 key)),
      AES_GCM_decrypt = (\<lambda>key iv data.
         if 16 \<le> length data \<and> drop (length data - 16) data = pad_to 16 key
         then Inr (take (length data - 16) data)
         else Inl (DOMException ''OperationError'')),
      HMAC = (\<lambda>h key data. pad_to 64 (key @ data)),
      JSON_parse = (\<lambda>s. if s = js ''stored'' then Inr example_hash_record else Inl SyntaxError),
      JSON_stringify_value = (\<lambda>v. js ''{}''),
      Date_getTime = (\<lambda>v. None),
      Number_toString = (\<lambda>r. js ''0'')\<rparr>"

definition example_item :: jsobj where
  "example_item =
     [(js ''id'', JStr (js ''a'')), (js ''url'', JStr (js ''a.com'')),
      (js ''createdAt'', JStr (js ''day1'')), (js ''updatedAt'', JStr (js ''day1'')),
      (js ''deletedAt'', JNull)]"

definition example_storage :: storage where
  "example_storage =
     \<lparr>auth_token = Some (js ''token''), last_sync_timestamp = Some (js ''day1''),
      sync_queue = None, user_settings = None, vault_backup = None, secure_vault = None\<rparr>"

definition example_state :: app_state where
  "example_state =
     \<lparr>vaultCache = Some \<lparr>passwords = [example_item], bookmarks = [], metadata = []\<rparr>,
      masterPasswordCache = Some (js ''secret''),
      autoLockTimer = None,
      isSyncing = False,
      local_storage = example_storage,
      random_source = (\<lambda>i. 0),
      clock = (\<lambda>n. js ''day2-'' @ [of_nat (48 + n)]),
      uuid_source = (\<lambda>n. js ''uuid-'' @ [of_nat (48 + n)])\<rparr>"

definition example_remote :: remote where
  "example_remote =
     \<lparr>fetchPasswords = (\<lambda>since. Inr []), uploadPasswords = (\<lambda>items. Inr ()),
      fetchBookmarks = (\<lambda>since. Inr []), uploadBookmarks = (\<lambda>items. Inr ())\<rparr>"

definition failing_remote :: remote where
  "failing_remote =
     \<lparr>fetchPasswords = (\<lambda>since. Inl (Error ''Failed to fetch passwords'')),
      uploadPasswords = (\<lambda>items. Inr ()),
      fetchBookmarks = (\<lambda>since. Inr []), uploadBookmarks = (\<lambda>items. Inr ())\<rparr>"

definition supplied_entry :: jsobj where
  "supplied_entry =
     [(js ''url'', JStr (js ''b.com'')), (js ''id'', JStr (js ''mine'')),
      (js ''updatedAt'', JStr (js ''day0'')), (js ''deletedAt'', JStr (js ''day0''))]"

section \<open>Properties\<close>

subsection \<open>Conflict resolution\<close>


lemma map_of_Map_set: "map_of (Map_set k v m) = (map_of m)(k \<mapsto> v)"
  by (induction m) (auto simp: fun_eq_iff)

lemma keys_Map_set: "fst ` set (Map_set k v m) = insert k (fst ` set m)"
proof -
  have "dom (map_of (Map_set k v m)) = insert k (dom (map_of m))"
    by (simp add: map_of_Map_set)
  then show ?thesis by (simp add: dom_map_of_conv_image_fst)
qed

lemma distinct_Map_set: "distinct (map fst m) \<Longrightarrow> distinct (map fst (Map_set k v m))"
proof (induction m)
  case Nil
  then show ?case by simp
next
  case (Cons a m)
  obtain k' v' where a: "a = (k', v')" by (cases a)
  show ?case
  proof (cases "k' = k")
    case True
    with Cons.prems a show ?thesis by simp
  next
    case False
    have "k' \<notin> fst ` set (Map_set k v m)"
      using Cons.prems a False by (simp add: keys_Map_set)
    with Cons a False show ?thesis by simp
  qed
qed

lemma set_Map_set: "set (Map_set k v m) \<subseteq> insert (k, v) (set m)"
  by (induction m) (auto split: if_splits)

lemma foldl_Map_set_map_of:
  "map_of (foldl (\<lambda>m (k, v). Map_set k v m) m0 ps) = map_of m0 ++ map_of (rev ps)"
  by (induction ps arbitrary: m0) (auto simp: map_of_Map_set fun_eq_iff map_add_def split: option.splits)

lemma foldl_Map_set_distinct:
  "distinct (map fst m0) \<Longrightarrow> distinct (map fst (foldl (\<lambda>m (k, v). Map_set k v m) m0 ps))"
  by (induction ps arbitrary: m0) (auto simp: distinct_Map_set)

lemma foldl_Map_set_subset:
  "set (foldl (\<lambda>m (k, v). Map_set k v m) m0 ps) \<subseteq> set m0 \<union> set ps"
proof (induction ps arbitrary: m0)
  case Nil
  then show ?case by simp
next
  case (Cons p ps)
  obtain k v where p: "p = (k, v)" by (cases p)
  have "set (foldl (\<lambda>m (k, v). Map_set k v m) (Map_set k v m0) ps) \<subseteq> set (Map_set k v m0) \<union> set ps"
    by (rule Cons.IH)
  with set_Map_set [of k v m0] p show ?case by auto
qed

lemma distinct_Map_new: "distinct (map fst (Map_new ps))"
  unfolding Map_new_def by (rule foldl_Map_set_distinct) simp

lemma set_Map_new: "set (Map_new ps) \<subseteq> set ps"
  unfolding Map_new_def using foldl_Map_set_subset [of "[]" ps] by simp

lemma Map_get_Map_new: "Map_get (Map_new ps) k = map_of (rev ps) k"
  unfolding Map_new_def Map_get_def by (simp add: foldl_Map_set_map_of)

lemma filter_values_keyed:
  assumes "distinct (map fst m)" and "\<forall>(k, v) \<in> set m. k = f v"
  shows "filter (\<lambda>z. f z = k) (map snd m) = (case map_of m k of None \<Rightarrow> [] | Some v \<Rightarrow> [v])"
  using assms
proof (induction m)
  case Nil
  then show ?case by simp
next
  case (Cons a m)
  obtain k' v' where a: "a = (k', v')" by (cases a)
  from Cons.prems a have k': "k' = f v'" by simp
  show ?case
  proof (cases "k' = k")
    case True
    with Cons.prems a have "k \<notin> fst ` set m" by auto
    then have "filter (\<lambda>z. f z = k) (map snd m) = []"
      using Cons.prems(2) by (force simp: filter_empty_conv image_iff)
    with True a k' show ?thesis by simp
  next
    case False
    with Cons a k' show ?thesis by simp
  qed
qed

lemma map_of_rev_keyed:
  "map_of (rev (map (\<lambda>i. (f i, i)) xs)) k =
     (case filter (\<lambda>z. f z = k) xs of [] \<Rightarrow> None | zs \<Rightarrow> Some (last zs))"
proof (induction xs rule: rev_induct)
  case Nil
  then show ?case by simp
next
  case (snoc x xs)
  then show ?case by (auto split: list.splits)
qed

lemma Map_values_Map_new_keyed:
  "filter (\<lambda>z. f z = k) (Map_values (Map_new (map (\<lambda>i. (f i, i)) xs))) =
     (case filter (\<lambda>z. f z = k) xs of [] \<Rightarrow> [] | zs \<Rightarrow> [last zs])"
proof -
  let ?m = "Map_new (map (\<lambda>i. (f i, i)) xs)"
  have d: "distinct (map fst ?m)" by (rule distinct_Map_new)
  have kd: "\<forall>(k, v) \<in> set ?m. k = f v"
    using set_Map_new [of "map (\<lambda>i. (f i, i)) xs"] by auto
  have "map_of ?m k = map_of (rev (map (\<lambda>i. (f i, i)) xs)) k"
    using Map_get_Map_new [of "map (\<lambda>i. (f i, i)) xs" k] by (simp add: Map_get_def)
  then show ?thesis
    unfolding Map_values_def
    by (simp add: filter_values_keyed [OF d kd] map_of_rev_keyed split: list.splits)
qed


lemma set_Set_new: "set (Set_new xs) = set xs"
  by (induction xs) auto

lemma distinct_Set_new: "distinct (Set_new xs)"
  by (induction xs) (auto simp: set_Set_new)

lemma Map_get_keyed_SomeD:
  assumes "Map_get (Map_new (map (\<lambda>item. (item_id V item, item)) B)) k = Some r"
  shows "item_id V r = k \<and> r \<in> set B"
proof -
  from assms have "(k, r) \<in> set (Map_new (map (\<lambda>item. (item_id V item, item)) B))"
    unfolding Map_get_def by (rule map_of_SomeD)
  with set_Map_new [of "map (\<lambda>item. (item_id V item, item)) B"] show ?thesis by auto
qed

lemma Map_get_keyed_once:
  assumes "filter (\<lambda>z. item_id V z = k) B = [y]"
  shows "Map_get (Map_new (map (\<lambda>item. (item_id V item, item)) B)) k = Some y"
  by (simp add: Map_get_Map_new map_of_rev_keyed assms)

lemma detectConflicts_loop_mem:
  "c \<in> set (detectConflicts_loop V rm ls) \<Longrightarrow>
     \<exists>l r. l \<in> set ls \<and> Map_get rm (item_id V l) = Some r \<and> is_conflict V l r \<and> c = mk_conflict V l r"
  by (induction ls) (auto simp: Let_def is_conflict_def mk_conflict_def split: option.splits if_splits)

lemma detectConflicts_loop_no_id:
  "k \<notin> item_id V ` set ls \<Longrightarrow> filter (\<lambda>c. conflict_id c = k) (detectConflicts_loop V rm ls) = []"
  by (auto simp: filter_empty_conv mk_conflict_def dest!: detectConflicts_loop_mem)

lemma detectConflicts_loop_once:
  assumes "filter (\<lambda>z. item_id V z = k) ls = [x]" and get: "Map_get rm k = Some y"
  shows "filter (\<lambda>c. conflict_id c = k) (detectConflicts_loop V rm ls) =
           (if is_conflict V x y then [mk_conflict V x y] else [])"
  using assms(1)
proof (induction ls)
  case Nil
  then show ?case by simp
next
  case (Cons l ls)
  show ?case
  proof (cases "item_id V l = k")
    case True
    with Cons.prems have lx: "l = x" and rest: "filter (\<lambda>z. item_id V z = k) ls = []"
      by simp_all
    from rest have "k \<notin> item_id V ` set ls" by (auto simp: filter_empty_conv)
    then have "filter (\<lambda>c. conflict_id c = k) (detectConflicts_loop V rm ls) = []"
      by (rule detectConflicts_loop_no_id)
    with True lx get show ?thesis
      by (simp add: Let_def is_conflict_def mk_conflict_def)
  next
    case False
    with Cons.prems have "filter (\<lambda>z. item_id V z = k) ls = [x]" by simp
    from Cons.IH [OF this] False show ?thesis
      by (simp add: Let_def split: option.splits)
  qed
qed

lemma resolve_loop_keepLocal:
  "keepLocal (resolveConflictsLastWriteWins_loop acc cs) =
     keepLocal acc @ map conflict_local (filter (\<lambda>c. num_gt (localTime c) (remoteTime c)) cs)"
  by (induction cs arbitrary: acc) auto

lemma resolve_loop_keepRemote:
  "keepRemote (resolveConflictsLastWriteWins_loop acc cs) =
     keepRemote acc @ map conflict_remote (filter (\<lambda>c. \<not> num_gt (localTime c) (remoteTime c)) cs)"
  by (induction cs arbitrary: acc) auto

lemma keepLocal_resolve:
  "keepLocal (resolveConflictsLastWriteWins cs) =
     map conflict_local (filter (\<lambda>c. num_gt (localTime c) (remoteTime c)) cs)"
  by (simp add: resolveConflictsLastWriteWins_def resolve_loop_keepLocal)

lemma keepRemote_resolve:
  "keepRemote (resolveConflictsLastWriteWins cs) =
     map conflict_remote (filter (\<lambda>c. \<not> num_gt (localTime c) (remoteTime c)) cs)"
  by (simp add: resolveConflictsLastWriteWins_def resolve_loop_keepRemote)

lemma detectConflicts_ids:
  assumes "c \<in> set (detectConflicts V A B)"
  shows "item_id V (conflict_local c) = conflict_id c \<and> item_id V (conflict_remote c) = conflict_id c"
proof -
  from assms obtain l r where
    "Map_get (Map_new (map (\<lambda>item. (item_id V item, item)) B)) (item_id V l) = Some r"
    and "c = mk_conflict V l r"
    unfolding detectConflicts_def Let_def by (blast dest: detectConflicts_loop_mem)
  then show ?thesis by (auto simp: mk_conflict_def dest: Map_get_keyed_SomeD)
qed

lemma filter_map_conflict:
  assumes "\<forall>c \<in> set cs. f (g c) = conflict_id c"
  shows "filter (\<lambda>z. f z = k) (map g (filter P cs)) = map g (filter P (filter (\<lambda>c. conflict_id c = k) cs))"
  using assms by (induction cs) auto

lemmas sample_defs = item_a1_def item_a3_def item_b2_def entry_view_def

lemmas merge_eval = js_def mergeItems_def detectConflicts_def Map_new_def Map_get_def Map_values_def
  Map_keys_def resolveConflictsLastWriteWins_def num_neq_def num_gt_def simple_merge_pick_def Let_def

text \<open>
  Claim C3, as stated for every pair of item lists, fails when a list holds two items with
  the same id.  Local \<open>[a@5, a@1]\<close> against remote \<open>[a@3]\<close>: both local items
  conflict with the remote one, \<open>a@5\<close> is kept as a local winner and \<open>a@3\<close> as a remote
  winner, and the final de-duplication by id keeps the later entry of the list, \<open>a@3\<close>,
  although the local side holds the same id with the greater time 5.
\<close>

theorem C3_counterexample:
  "item_a5 \<in> set [item_a5, item_a1] \<and> item_a3 \<in> set [item_a3]
   \<and> item_id entry_view item_a3 = item_id entry_view item_a5
   \<and> JSON_stringify entry_view item_a3 \<noteq> JSON_stringify entry_view item_a5
   \<and> getTime entry_view item_a3 = Some 3 \<and> getTime entry_view item_a5 = Some 5 \<and> (3::int) < 5
   \<and> merged (mergeItems entry_view [item_a5, item_a1] [item_a3] (JStr (js ''last-write-wins'')))
       = [item_a3]"
  by (simp add: item_a5_def sample_defs merge_eval)

text \<open>
  Claim C3, amended: let the id \<open>k\<close> occur exactly once in the local list \<open>A\<close>, on the item
  \<open>x\<close>, and exactly once in the remote list \<open>B\<close>, on the item \<open>y\<close>; other ids may repeat.
  Ids are compared as the \<open>Map\<close> compares its keys, primitive values by value and objects
  by reference.  If \<open>x\<close> and \<open>y\<close> have different serialised content and different
  \<open>updatedAt\<close> times, then under last-write-wins the merged result holds for the id \<open>k\<close>
  exactly one item, the one with the greater time.
\<close>

theorem C3_mergeItems_last_write_wins:
  fixes V :: "('a, 'k, 's) item_view"
  assumes onceA: "filter (\<lambda>z. item_id V z = k) A = [x]"
    and onceB: "filter (\<lambda>z. item_id V z = k) B = [y]"
    and diff: "JSON_stringify V x \<noteq> JSON_stringify V y"
    and tx: "getTime V x = Some tx" and ty: "getTime V y = Some ty" and ne: "tx \<noteq> ty"
  shows "filter (\<lambda>z. item_id V z = k)
           (merged (mergeItems V A B (JStr (js ''last-write-wins'')))) = [if tx < ty then y else x]"
proof -
  let ?cs = "detectConflicts V A B"
  let ?c0 = "mk_conflict V x y"
  let ?gt = "\<lambda>c::('a, 'k) conflict. num_gt (localTime c) (remoteTime c)"
  have "x \<in> set (filter (\<lambda>z. item_id V z = k) A)" unfolding onceA by simp
  then have xk: "item_id V x = k" by simp
  have get: "Map_get (Map_new (map (\<lambda>item. (item_id V item, item)) B)) k = Some y"
    by (rule Map_get_keyed_once [OF onceB])
  have conf: "is_conflict V x y"
    using diff tx ty ne by (simp add: is_conflict_def num_neq_def)
  have fcs: "filter (\<lambda>c. conflict_id c = k) ?cs = [?c0]"
    unfolding detectConflicts_def Let_def
    using detectConflicts_loop_once [OF onceA get] conf by simp
  have "?c0 \<in> set (filter (\<lambda>c. conflict_id c = k) ?cs)"
    unfolding fcs by simp
  then have "?c0 \<in> set ?cs" by simp
  then have nonempty: "length ?cs \<noteq> 0" and kin: "k \<in> conflict_id ` set ?cs"
    using xk by (auto simp: mk_conflict_def image_iff intro!: bexI [of _ ?c0])
  let ?ids = "Set_new (map conflict_id ?cs)"
  let ?res = "resolveConflictsLastWriteWins ?cs"
  let ?all = "filter (\<lambda>item. item_id V item \<notin> set ?ids) A @ filter (\<lambda>item. item_id V item \<notin> set ?ids) B
              @ keepLocal ?res @ keepRemote ?res"
  have m: "merged (mergeItems V A B (JStr (js ''last-write-wins''))) =
             Map_values (Map_new (map (\<lambda>item. (item_id V item, item)) ?all))"
    using nonempty by (simp add: mergeItems_def Let_def)
  have kids: "k \<in> set ?ids" using kin by (simp add: set_Set_new)
  have f1: "filter (\<lambda>z. item_id V z = k) (filter (\<lambda>item. item_id V item \<notin> set ?ids) A) = []"
    using kids by (auto simp: filter_empty_conv)
  have f2: "filter (\<lambda>z. item_id V z = k) (filter (\<lambda>item. item_id V item \<notin> set ?ids) B) = []"
    using kids by (auto simp: filter_empty_conv)
  have f3: "filter (\<lambda>z. item_id V z = k) (keepLocal ?res) = map conflict_local (filter ?gt [?c0])"
    unfolding keepLocal_resolve
    using filter_map_conflict [of ?cs "item_id V" conflict_local k ?gt] detectConflicts_ids [of _ V A B] fcs
    by simp
  have f4: "filter (\<lambda>z. item_id V z = k) (keepRemote ?res) = map conflict_remote (filter (\<lambda>c. \<not> ?gt c) [?c0])"
    unfolding keepRemote_resolve
    using filter_map_conflict [of ?cs "item_id V" conflict_remote k "\<lambda>c. \<not> ?gt c"] detectConflicts_ids [of _ V A B] fcs
    by simp
  have fall: "filter (\<lambda>z. item_id V z = k) ?all = [if tx < ty then y else x]"
    using ne by (simp add: f1 f2 f3 f4 mk_conflict_def tx ty num_gt_def del: filter_filter)
  show ?thesis
    unfolding m Map_values_Map_new_keyed fall by simp
qed

theorem C3_witness:
  "filter (\<lambda>z. item_id entry_view z = ''a'') [item_b2, item_a1, item_b2] = [item_a1]
   \<and> filter (\<lambda>z. item_id entry_view z = ''a'') [item_a3] = [item_a3]
   \<and> JSON_stringify entry_view item_a1 \<noteq> JSON_stringify entry_view item_a3
   \<and> getTime entry_view item_a1 = Some 1 \<and> getTime entry_view item_a3 = Some 3
   \<and> (1::int) \<noteq> 3
   \<and> filter (\<lambda>z. item_id entry_view z = ''a'')
         (merged (mergeItems entry_view [item_b2, item_a1, item_b2] [item_a3]
                    (JStr (js ''last-write-wins''))))
       = [item_a3]"
  using C3_mergeItems_last_write_wins
          [where V = entry_view and k = "''a''" and A = "[item_b2, item_a1, item_b2]"
             and x = item_a1 and B = "[item_a3]" and y = item_a3 and tx = 1 and ty = 3]
  by (simp add: sample_defs)

text \<open>
  Claim C5, as stated, fails: under the manual strategy the merged result is the local list
  as it is.  Local \<open>[a@1]\<close> against remote \<open>[a@3, b@2]\<close>: the merged list holds the
  conflicting local item \<open>a@1\<close> and lacks \<open>b@2\<close>, which only the remote side has.
\<close>

theorem C5_counterexample:
  "conflicts (mergeItems entry_view [item_a1] [item_a3, item_b2] (JStr (js ''manual''))) \<noteq> []
   \<and> merged (mergeItems entry_view [item_a1] [item_a3, item_b2] (JStr (js ''manual''))) = [item_a1]
   \<and> item_id entry_view item_a1
       \<in> conflict_id ` set (detectConflicts entry_view [item_a1] [item_a3, item_b2])
   \<and> item_b2 \<in> set [item_a3, item_b2]
   \<and> item_id entry_view item_b2 \<notin> item_id entry_view ` set [item_a1]
   \<and> item_b2 \<notin> set (merged (mergeItems entry_view [item_a1] [item_a3, item_b2] (JStr (js ''manual''))))"
  by (simp add: sample_defs merge_eval)

text \<open>
  Claim C5, amended: for every strategy other than \<open>'last-write-wins'\<close> (so for
  \<open>'manual'\<close>), \<open>mergeItems\<close> with at least one detected conflict returns the full list of
  detected conflicts, unresolved, and as merged result the local list unchanged.
\<close>

theorem C5_mergeItems_manual:
  assumes "s \<noteq> js ''last-write-wins''" and "detectConflicts V A B \<noteq> []"
  shows "mergeItems V A B (JStr s) = \<lparr>merged = A, conflicts = detectConflicts V A B\<rparr>"
  using assms by (simp add: mergeItems_def Let_def)

theorem C5_witness:
  "js ''manual'' \<noteq> js ''last-write-wins''
   \<and> detectConflicts entry_view [item_a1] [item_a3, item_b2] \<noteq> []
   \<and> mergeItems entry_view [item_a1] [item_a3, item_b2] (JStr (js ''manual'')) =
       \<lparr>merged = [item_a1],
        conflicts = detectConflicts entry_view [item_a1] [item_a3, item_b2]\<rparr>"
proof -
  have h1: "js ''manual'' \<noteq> js ''last-write-wins''" by (simp add: js_def)
  have h2: "detectConflicts entry_view [item_a1] [item_a3, item_b2] \<noteq> []"
    by (simp add: sample_defs merge_eval)
  show ?thesis using h1 h2 C5_mergeItems_manual [OF h1 h2] by simp
qed

subsection \<open>The vault\<close>


lemma obj_get_obj_set: "obj_get (obj_set k v obj) k' = (if k' = k then v else obj_get obj k')"
  by (simp add: obj_get_def obj_set_def map_of_Map_set)

lemma map_of_rev_distinct: "distinct (map fst xs) \<Longrightarrow> map_of (rev xs) = map_of xs"
  by (metis distinct_rev map_of_inject_set rev_map set_rev)

lemma obj_get_obj_spread:
  assumes "distinct (map fst source)"
  shows "obj_get (obj_spread target source) k =
           (case map_of source k of None \<Rightarrow> obj_get target k | Some v \<Rightarrow> v)"
proof -
  have "obj_spread target source = foldl (\<lambda>m (k, v). Map_set k v m) target source"
    by (simp add: obj_spread_def obj_set_def)
  then have "map_of (obj_spread target source) = map_of target ++ map_of (rev source)"
    by (simp add: foldl_Map_set_map_of)
  with assms show ?thesis
    by (simp add: obj_get_def map_of_rev_distinct map_add_def split: option.splits)
qed

lemma createBackup_vaultCache: "vaultCache (createBackup env st) = vaultCache st"
  by (simp add: createBackup_def Date_now_ISO_def Let_def)

lemma saveVault_vaultCache: "vaultCache (snd (saveVault X st)) = vaultCache st"
  by (simp add: saveVault_def createBackup_vaultCache Let_def
        split: option.splits prod.splits sum.splits)

lemma new_entry_fields:
  assumes "distinct (map fst e)"
  shows "obj_get (new_entry uuid e t1 t2) (js ''id'') =
           (case map_of e (js ''id'') of None \<Rightarrow> JStr uuid | Some v \<Rightarrow> v)"
    and "obj_get (new_entry uuid e t1 t2) (js ''createdAt'') = JStr t1"
    and "obj_get (new_entry uuid e t1 t2) (js ''updatedAt'') = JStr t2"
    and "obj_get (new_entry uuid e t1 t2) (js ''deletedAt'') = JNull"
  using assms
  by (simp_all add: new_entry_def obj_get_obj_set obj_get_obj_spread js_def split: option.splits)

lemma saveVault_vaultCache_eq: "saveVault X st = (r, st') \<Longrightarrow> vaultCache st' = vaultCache st"
  using saveVault_vaultCache [of X st] by simp

lemma addPassword_state:
  assumes "unlocked st = Some (v, pw)"
  shows "vaultCache (snd (addPassword X e st)) =
           Some (v\<lparr>passwords := passwords v @
             [new_entry (uuid_source st 0) e (clock st 0) (clock st 1)]\<rparr>)"
  using assms
  by (auto simp: addPassword_def randomUUID_def Date_now_ISO_def Let_def resetAutoLockTimer_def
        clearAutoLockTimer_def split: prod.splits sum.splits dest!: saveVault_vaultCache_eq)

lemma addPassword_result:
  assumes "unlocked st = Some (v, pw)" and "fst (addPassword X e st) = Inr r"
  shows "r = new_entry (uuid_source st 0) e (clock st 0) (clock st 1)"
  using assms
  by (auto simp: addPassword_def randomUUID_def Date_now_ISO_def Let_def
        split: prod.splits sum.splits)

lemma addBookmark_state:
  assumes "unlocked st = Some (v, pw)"
  shows "vaultCache (snd (addBookmark X e st)) =
           Some (v\<lparr>bookmarks := bookmarks v @
             [new_entry (uuid_source st 0) e (clock st 0) (clock st 1)]\<rparr>)"
  using assms
  by (auto simp: addBookmark_def randomUUID_def Date_now_ISO_def Let_def resetAutoLockTimer_def
        clearAutoLockTimer_def split: prod.splits sum.splits dest!: saveVault_vaultCache_eq)

lemma addBookmark_result:
  assumes "unlocked st = Some (v, pw)" and "fst (addBookmark X e st) = Inr r"
  shows "r = new_entry (uuid_source st 0) e (clock st 0) (clock st 1)"
  using assms
  by (auto simp: addBookmark_def randomUUID_def Date_now_ISO_def Let_def
        split: prod.splits sum.splits)

lemma findIndex_Some: "findIndex p xs = Some i \<Longrightarrow> i < length xs \<and> p (xs ! i)"
  by (induction xs arbitrary: i) (auto split: if_splits)

lemma deletePassword_state:
  assumes "unlocked st = Some (v, pw)"
    and "findIndex (\<lambda>p. strict_eq (obj_get p (js ''id'')) ident) (passwords v) = Some i"
  shows "vaultCache (snd (deletePassword X ident st)) =
           Some (v\<lparr>passwords := (passwords v)
             [i := obj_set (js ''deletedAt'') (JStr (clock st 0)) (passwords v ! i)]\<rparr>)"
  using assms
  by (auto simp: deletePassword_def Date_now_ISO_def Let_def resetAutoLockTimer_def
        clearAutoLockTimer_def split: prod.splits sum.splits dest!: saveVault_vaultCache_eq)

lemma updatePassword_state:
  assumes "unlocked st = Some (v, pw)"
    and "findIndex (\<lambda>p. strict_eq (obj_get p (js ''id'')) ident) (passwords v) = Some i"
  shows "vaultCache (snd (updatePassword X ident updates st)) =
           Some (v\<lparr>passwords := (passwords v)
             [i := updated_entry (passwords v ! i) updates (clock st 0)]\<rparr>)"
  using assms
  by (auto simp: updatePassword_def Date_now_ISO_def Let_def resetAutoLockTimer_def
        clearAutoLockTimer_def split: prod.splits sum.splits dest!: saveVault_vaultCache_eq)

lemma deleted_entry_updatedAt:
  "obj_get (obj_set (js ''deletedAt'') t item) (js ''updatedAt'') = obj_get item (js ''updatedAt'')"
  by (simp add: obj_get_obj_set js_def)

lemma updated_entry_updatedAt:
  "obj_get (updated_entry old updates now) (js ''updatedAt'') = JStr now"
  by (simp add: updated_entry_def obj_get_obj_set)

lemma ex_unlocked: "unlocked example_state =
   Some (\<lparr>passwords = [example_item], bookmarks = [], metadata = []\<rparr>, js ''secret'')"
  by (simp add: unlocked_def example_state_def js_def)

lemma ex_find: "findIndex (\<lambda>p. strict_eq (obj_get p (js ''id'')) (JStr (js ''a''))) [example_item] = Some 0"
  by (simp add: example_item_def obj_get_def js_def)

text \<open>
  Claim C4 on \<open>deletePassword\<close>: the soft delete writes \<open>deletedAt\<close> only.  Deleting item
  \<open>a\<close>, last updated at \<open>day1\<close>, when the clock reads \<open>day2-0\<close>, leaves
  \<open>updatedAt = day1\<close> and sets \<open>deletedAt = day2-0\<close>.  (\<open>addPassword\<close> and
  \<open>updatePassword\<close> do stamp \<open>updatedAt\<close>: lemmas \<open>new_entry_fields\<close> and
  \<open>updated_entry_updatedAt\<close>.)
\<close>

theorem C4_deletePassword_keeps_updatedAt:
  "vaultCache (snd (deletePassword example_platform (JStr (js ''a'')) example_state)) =
     Some \<lparr>passwords =
             [[(js ''id'', JStr (js ''a'')), (js ''url'', JStr (js ''a.com'')),
               (js ''createdAt'', JStr (js ''day1'')), (js ''updatedAt'', JStr (js ''day1'')),
               (js ''deletedAt'', JStr (js ''day2-0''))]],
           bookmarks = [], metadata = []\<rparr>"
  using deletePassword_state [OF ex_unlocked, of "JStr (js ''a'')" 0 example_platform] ex_find
  by (simp add: example_item_def obj_set_def js_def example_state_def)

text \<open>
  Claim C9: in an unlocked vault, \<open>addPassword\<close> and \<open>addBookmark\<close> append the entry built
  by the object literal.  Its \<open>id\<close> is the caller's \<open>id\<close> when the caller's object has one,
  and the fresh UUID otherwise; \<open>createdAt\<close> and \<open>updatedAt\<close> are the two clock readings of
  the call and \<open>deletedAt\<close> is \<open>null\<close>, whatever the caller supplied for them.  The entry
  returned on success is the stored one.
\<close>

theorem C9_add_keeps_supplied_id:
  assumes "unlocked st = Some (v, pw)" and "distinct (map fst e)"
  shows "let entry = new_entry (uuid_source st 0) e (clock st 0) (clock st 1) in
           vaultCache (snd (addPassword X e st)) = Some (v\<lparr>passwords := passwords v @ [entry]\<rparr>)
         \<and> vaultCache (snd (addBookmark X e st)) = Some (v\<lparr>bookmarks := bookmarks v @ [entry]\<rparr>)
         \<and> (\<forall>r. fst (addPassword X e st) = Inr r \<longrightarrow> r = entry)
         \<and> (\<forall>r. fst (addBookmark X e st) = Inr r \<longrightarrow> r = entry)
         \<and> obj_get entry (js ''id'') =
               (case map_of e (js ''id'') of None \<Rightarrow> JStr (uuid_source st 0)
                | Some supplied \<Rightarrow> supplied)
         \<and> obj_get entry (js ''createdAt'') = JStr (clock st 0)
         \<and> obj_get entry (js ''updatedAt'') = JStr (clock st 1)
         \<and> obj_get entry (js ''deletedAt'') = JNull"
  using assms addPassword_state [OF assms(1)] addBookmark_state [OF assms(1)]
    addPassword_result [OF assms(1)] addBookmark_result [OF assms(1)]
    new_entry_fields [OF assms(2)]
  by (simp add: Let_def)

theorem C9_witness:
  "unlocked example_state =
     Some (\<lparr>passwords = [example_item], bookmarks = [], metadata = []\<rparr>, js ''secret'')
   \<and> distinct (map fst supplied_entry)
   \<and> map_of supplied_entry (js ''id'') = Some (JStr (js ''mine''))
   \<and> map_of supplied_entry (js ''updatedAt'') = Some (JStr (js ''day0''))
   \<and> (let entry = new_entry (js ''uuid-0'') supplied_entry (js ''day2-0'') (js ''day2-1'') in
         vaultCache (snd (addPassword example_platform supplied_entry example_state)) =
           Some \<lparr>passwords = [example_item, entry], bookmarks = [], metadata = []\<rparr>
       \<and> obj_get entry (js ''id'') = JStr (js ''mine'')
       \<and> obj_get entry (js ''createdAt'') = JStr (js ''day2-0'')
       \<and> obj_get entry (js ''updatedAt'') = JStr (js ''day2-1'')
       \<and> obj_get entry (js ''deletedAt'') = JNull)"
proof -
  have h2: "distinct (map fst supplied_entry)"
    by (simp add: supplied_entry_def js_def)
  have m: "map_of supplied_entry (js ''id'') = Some (JStr (js ''mine''))"
    "map_of supplied_entry (js ''updatedAt'') = Some (JStr (js ''day0''))"
    by (simp_all add: supplied_entry_def js_def)
  have c: "clock example_state 0 = js ''day2-0''" "clock example_state 1 = js ''day2-1''"
    "uuid_source example_state 0 = js ''uuid-0''"
    by (simp_all add: example_state_def js_def)
  show ?thesis
    using C9_add_keeps_supplied_id [OF ex_unlocked h2, of example_platform] ex_unlocked h2 m c
    by (simp add: Let_def)
qed

subsection \<open>The sync service\<close>

text \<open>
  Ids as keys: two object ids are the same key exactly when they are the same reference,
  two string ids exactly when they are equal strings.  So two items whose ids are distinct
  objects with the same contents are two entries for the resolver, and both are kept.
\<close>

lemma SameValueZero_key_objects:
  "(SameValueZero_key (JObj a ps) = SameValueZero_key (JObj b qs)) = (a = b)"
  by (simp add: SameValueZero_key_def)

lemma SameValueZero_key_strings:
  "(SameValueZero_key (JStr s) = SameValueZero_key (JStr t)) = (s = t)"
  by (simp add: SameValueZero_key_def)

lemma mergeItems_object_ids_by_reference:
  assumes "a \<noteq> b"
  shows "mergeItems (vault_item_view X) [[(js ''id'', JObj a ps)]] [[(js ''id'', JObj b ps)]] s =
           \<lparr>merged = [[(js ''id'', JObj a ps)], [(js ''id'', JObj b ps)]], conflicts = []\<rparr>"
  using assms
  by (simp add: merge_eval vault_item_view_def obj_get_def SameValueZero_key_def)


lemma unlocked_isSyncing [simp]: "unlocked (st\<lparr>isSyncing := b\<rparr>) = unlocked st"
  by (simp add: unlocked_def)

lemma unlocked_resetAutoLockTimer [simp]: "unlocked (resetAutoLockTimer st) = unlocked st"
  by (simp add: unlocked_def resetAutoLockTimer_def clearAutoLockTimer_def)

lemma getPasswords_unlocked:
  "unlocked st = Some (v, pw) \<Longrightarrow> getPasswords st = (Inr (passwords v), resetAutoLockTimer st)"
  by (simp add: getPasswords_def)

lemma getBookmarks_unlocked:
  "unlocked st = Some (v, pw) \<Longrightarrow> getBookmarks st = (Inr (bookmarks v), resetAutoLockTimer st)"
  by (simp add: getBookmarks_def)

lemma resetAutoLockTimer_idem [simp]:
  "resetAutoLockTimer (resetAutoLockTimer st) = resetAutoLockTimer st"
  by (simp add: resetAutoLockTimer_def clearAutoLockTimer_def)

lemma performSync_try_remote_error:
  assumes "unlocked st = Some (v, pw)"
    and "remote_error X R v (getLastSyncTimestamp st)
           (obj_get (getSettings st) (js ''conflictResolution'')) = Some e"
  shows "performSync_try X R st = (Inl e, resetAutoLockTimer st)"
  using assms
  by (auto simp: performSync_try_def syncPasswords_def syncBookmarks_def remote_error_def
        getPasswords_unlocked getBookmarks_unlocked Let_def
        split: sum.splits prod.splits)

lemma getLastSyncTimestamp_isSyncing [simp]:
  "getLastSyncTimestamp (st\<lparr>isSyncing := b\<rparr>) = getLastSyncTimestamp st"
  by (simp add: getLastSyncTimestamp_def)

lemma getSettings_isSyncing [simp]: "getSettings (st\<lparr>isSyncing := b\<rparr>) = getSettings st"
  by (simp add: getSettings_def)

lemma performSync_in_progress:
  "isSyncing st \<Longrightarrow> performSync X R st = (Inr In_progress, st)"
  by (simp add: performSync_def)

lemma performSync_steps:
  "run_schedule X R [0, 0, 0] ([Called], st) =
     ([Settled (fst (performSync X R st))], snd (performSync X R st))"
  by (simp add: performSync_def performSync_step_def Let_def split: prod.splits sum.splits)

lemma two_calls_both_enter:
  assumes "\<not> isSyncing st" and "isAuthenticated st"
  shows "run_schedule X R [0, 1, 0, 1] ([Called, Called], st)
           = ([In_try_block, In_try_block], st\<lparr>isSyncing := True\<rparr>)"
  using assms by (simp add: performSync_step_def isAuthenticated_def)

lemmas ex_defs = example_state_def example_storage_def example_remote_def example_item_def
  example_platform_def

lemmas sync_eval = performSync_step_def performSync_try_def syncPasswords_def syncBookmarks_def
  getPasswords_def getBookmarks_def unlocked_def isAuthenticated_def getLastSyncTimestamp_def
  getSettings_def default_settings_def obj_get_def vault_item_view_def processSyncQueue_def
  getSyncQueue_def Date_now_ISO_def saveLastSyncTimestamp_def resetAutoLockTimer_def
  clearAutoLockTimer_def AUTO_LOCK_MINUTES_def

text \<open>
  Claim C6 on two calls issued back to back from an idle, authenticated, unlocked state.
  The guard reads \<open>isSyncing\<close> at the call, the flag is set only after
  \<open>await isAuthenticated()\<close>, so the second call, made while the first is suspended there,
  passes the guard too (lemma \<open>two_calls_both_enter\<close>, for every such state).  After each
  task has run twice both are inside the \<open>try\<close> block;
  run to the end, both have done a full pass and both return \<open>success\<close>, none
  \<open>in_progress\<close>.  (When \<open>isSyncing\<close> is already set at the call, the answer is
  \<open>in_progress\<close> and the state is untouched: lemma \<open>performSync_in_progress\<close>.)
\<close>

theorem C6_two_calls_both_run:
  "run_schedule example_platform example_remote [0, 1, 0, 1] ([Called, Called], example_state)
     = ([In_try_block, In_try_block], example_state\<lparr>isSyncing := True\<rparr>)
   \<and> fst (run_schedule example_platform example_remote [0, 1, 0, 1, 0, 1]
          ([Called, Called], example_state))
     = [Settled (Inr (Success (js ''day2-0'') \<lparr>synced = 1, conflict_count = 0\<rparr>
                        \<lparr>synced = 0, conflict_count = 0\<rparr>)),
        Settled (Inr (Success (js ''day2-1'') \<lparr>synced = 1, conflict_count = 0\<rparr>
                        \<lparr>synced = 0, conflict_count = 0\<rparr>))]"
  by (simp add: sync_eval ex_defs merge_eval)

text \<open>
  Claim C7: a pass that starts (idle engine, authenticated, vault unlocked) and in which
  the remote store answers an error to any of its four calls throws that error; afterwards
  \<open>isSyncing\<close> is false and the stored last-sync timestamp is what it was, so the next pass
  fetches with the same \<open>since\<close>.
\<close>

theorem C7_remote_error_aborts_pass:
  assumes "\<not> isSyncing st" and "isAuthenticated st" and "unlocked st = Some (v, pw)"
    and "remote_error X R v (getLastSyncTimestamp st)
           (obj_get (getSettings st) (js ''conflictResolution'')) = Some e"
  shows "fst (performSync X R st) = Inl e
       \<and> \<not> isSyncing (snd (performSync X R st))
       \<and> last_sync_timestamp (local_storage (snd (performSync X R st)))
           = last_sync_timestamp (local_storage st)
       \<and> getLastSyncTimestamp (snd (performSync X R st)) = getLastSyncTimestamp st"
proof -
  let ?st1 = "st\<lparr>isSyncing := True\<rparr>"
  have "performSync_try X R ?st1 = (Inl e, resetAutoLockTimer ?st1)"
    using assms(3,4) by (intro performSync_try_remote_error [where v = v and pw = pw]) simp_all
  then have "performSync X R st = (Inl e, (resetAutoLockTimer ?st1)\<lparr>isSyncing := False\<rparr>)"
    using assms(1,2) by (simp add: performSync_def)
  then show ?thesis
    by (simp add: resetAutoLockTimer_def clearAutoLockTimer_def getLastSyncTimestamp_def)
qed

theorem C7_witness:
  "\<not> isSyncing example_state \<and> isAuthenticated example_state
   \<and> remote_error example_platform failing_remote
         \<lparr>passwords = [example_item], bookmarks = [], metadata = []\<rparr>
         (getLastSyncTimestamp example_state)
         (obj_get (getSettings example_state) (js ''conflictResolution''))
       = Some (Error ''Failed to fetch passwords'')
   \<and> fst (performSync example_platform failing_remote example_state)
       = Inl (Error ''Failed to fetch passwords'')
   \<and> \<not> isSyncing (snd (performSync example_platform failing_remote example_state))
   \<and> getLastSyncTimestamp (snd (performSync example_platform failing_remote example_state))
       = Some (js ''day1'')"
proof -
  have h1: "\<not> isSyncing example_state" by (simp add: example_state_def)
  have h2: "isAuthenticated example_state"
    by (simp add: isAuthenticated_def example_state_def example_storage_def js_def)
  have h4: "remote_error example_platform failing_remote
         \<lparr>passwords = [example_item], bookmarks = [], metadata = []\<rparr>
         (getLastSyncTimestamp example_state)
         (obj_get (getSettings example_state) (js ''conflictResolution''))
       = Some (Error ''Failed to fetch passwords'')"
    by (simp add: remote_error_def failing_remote_def)
  have t: "getLastSyncTimestamp example_state = Some (js ''day1'')"
    by (simp add: getLastSyncTimestamp_def example_state_def example_storage_def js_def)
  show ?thesis
    using C7_remote_error_aborts_pass [OF h1 h2 ex_unlocked h4] h1 h2 h4 t by simp
qed

subsection \<open>Key derivation and password verification\<close>

lemma deriveKey_stretch:
  "map_sum id key_data (deriveKey X secret salt_bytes n) = two_round_stretch X secret salt_bytes n"
  by (simp add: deriveKey_def two_round_stretch_def subtle_importKey_def subtle_deriveKey_def
        subtle_exportKey_def subtle_digest_def bind_err_def KEY_LENGTH_def Let_def
        split: sum.splits)

lemma deriveKey_small_work_factor:
  assumes zero: "\<And>h password s len. \<exists>err. PBKDF2 X h password s 0 len = Inl err"
    and "n < 2"
  shows "\<exists>err. deriveKey X secret salt_bytes n = Inl err"
proof -
  from assms(2) have half: "n div 2 = 0" by simp
  have "\<exists>err. two_round_stretch X secret salt_bytes n = Inl err"
  proof (cases "PBKDF2 X SHA_256 (TextEncoder_encode (secret @ PEPPER)) salt_bytes n 256")
    case (Inl err)
    then show ?thesis by (simp add: two_round_stretch_def bind_err_def)
  next
    case (Inr round1)
    with zero [of SHA_512 round1
                 "hash_digest X SHA_256 (salt_bytes @ TextEncoder_encode (js ''round2''))" 256]
    show ?thesis by (simp add: two_round_stretch_def bind_err_def half)
  qed
  then obtain err where "map_sum id key_data (deriveKey X secret salt_bytes n) = Inl err"
    by (auto simp: deriveKey_stretch)
  then show ?thesis by (cases "deriveKey X secret salt_bytes n") auto
qed

text \<open>
  Claim C8, as stated for every work factor, fails for the work factors 0 and 1.  With
  \<open>n = 1\<close> the first round runs with one iteration, and the second round asks PBKDF2 for
  \<open>1 div 2 = 0\<close> iterations, which PBKDF2 rejects with an \<open>OperationError\<close>: \<open>deriveKey\<close>
  throws and there is no final key.
\<close>

theorem C8_counterexample:
  "(\<exists>round1. PBKDF2 example_platform SHA_256 (TextEncoder_encode (js ''pw'' @ PEPPER)) [1, 2, 3]
               1 256 = Inr round1)
   \<and> (1::nat) div 2 = 0
   \<and> deriveKey example_platform (js ''pw'') [1, 2, 3] 1 = Inl (DOMException ''OperationError'')
   \<and> (\<nexists>k. deriveKey example_platform (js ''pw'') [1, 2, 3] 1 = Inr k)"
proof -
  have "deriveKey example_platform (js ''pw'') [1, 2, 3] 1 = Inl (DOMException ''OperationError'')"
    by (simp add: deriveKey_def subtle_importKey_def subtle_deriveKey_def
          subtle_exportKey_def subtle_digest_def bind_err_def KEY_LENGTH_def Let_def
          example_platform_def)
  then show ?thesis by (simp add: example_platform_def)
qed

text \<open>
  Claim C8, amended: for every secret, salt and work factor \<open>n\<close> of at least 2, on a
  platform whose PBKDF2 accepts every iteration count from 1 to \<open>n\<close> and returns the 256
  bits it is asked for, \<open>deriveKey\<close> performs the two rounds and returns a key.  Round 1 is
  PBKDF2-HMAC-SHA-256 over the peppered secret with the caller's salt and \<open>n\<close> iterations;
  round 2 is PBKDF2-HMAC-SHA-512 over the 256 bits of round 1 with \<open>n div 2\<close> iterations and
  the salt SHA-256(salt \<parallel> "round2").  The key returned is an AES-GCM key of length 256
  whose material is the 256 bits of round 2.
\<close>

theorem C8_deriveKey_two_rounds:
  assumes n: "2 \<le> n"
    and pbkdf2: "\<And>h password s i. 1 \<le> i \<Longrightarrow> i \<le> n \<Longrightarrow>
                   \<exists>bits. PBKDF2 X h password s i 256 = Inr bits \<and> 8 * length bits = 256"
  shows "\<exists>round1 k.
           PBKDF2 X SHA_256 (TextEncoder_encode (secret @ PEPPER)) salt_bytes n 256 = Inr round1
         \<and> PBKDF2 X SHA_512 round1
             (hash_digest X SHA_256 (salt_bytes @ TextEncoder_encode (js ''round2'')))
             (n div 2) 256 = Inr (key_data k)
         \<and> deriveKey X secret salt_bytes n = Inr k
         \<and> two_round_stretch X secret salt_bytes n = Inr (key_data k)
         \<and> key_alg k = AES_GCM_key 256
         \<and> 8 * length (key_data k) = 256"
proof -
  from n have n1: "1 \<le> n" and h1: "1 \<le> n div 2" and h2: "n div 2 \<le> n" by simp_all
  from pbkdf2 [OF n1 order_refl] obtain round1 where
    r1: "PBKDF2 X SHA_256 (TextEncoder_encode (secret @ PEPPER)) salt_bytes n 256 = Inr round1"
    by blast
  from pbkdf2 [OF h1 h2] obtain round2 where
    r2: "PBKDF2 X SHA_512 round1
           (hash_digest X SHA_256 (salt_bytes @ TextEncoder_encode (js ''round2'')))
           (n div 2) 256 = Inr round2"
    and len: "8 * length round2 = 256"
    by blast
  let ?k = "\<lparr>key_alg = AES_GCM_key 256, key_data = round2, key_extractable = False,
             key_usages = [Usage_encrypt, Usage_decrypt]\<rparr>"
  have d: "deriveKey X secret salt_bytes n = Inr ?k"
    using r1 r2
    by (simp add: deriveKey_def subtle_importKey_def subtle_deriveKey_def
          subtle_exportKey_def subtle_digest_def bind_err_def KEY_LENGTH_def Let_def)
  have s: "two_round_stretch X secret salt_bytes n = Inr (key_data ?k)"
    using r1 r2 by (simp add: two_round_stretch_def bind_err_def)
  from r1 r2 d s len show ?thesis
    by (intro exI [of _ round1] exI [of _ ?k]) simp
qed

lemma ex_pbkdf2_accepts:
  "1 \<le> i \<Longrightarrow> \<exists>bits. PBKDF2 example_platform h password s i 256 = Inr bits \<and> 8 * length bits = 256"
  by (simp add: example_platform_def pad_to_def)

theorem C8_witness:
  "(2::nat) \<le> 4
   \<and> (\<exists>round1 k.
         PBKDF2 example_platform SHA_256 (TextEncoder_encode (js ''pw'' @ PEPPER)) [1, 2, 3] 4 256
           = Inr round1
       \<and> PBKDF2 example_platform SHA_512 round1
           (hash_digest example_platform SHA_256 ([1, 2, 3] @ TextEncoder_encode (js ''round2'')))
           (4 div 2) 256 = Inr (key_data k)
       \<and> deriveKey example_platform (js ''pw'') [1, 2, 3] 4 = Inr k
       \<and> two_round_stretch example_platform (js ''pw'') [1, 2, 3] 4 = Inr (key_data k)
       \<and> key_alg k = AES_GCM_key 256
       \<and> 8 * length (key_data k) = 256)
   \<and> deriveKey example_platform (js ''pw'') [1, 2, 3] 4 =
       Inr \<lparr>key_alg = AES_GCM_key 256,
            key_data = pad_to 32 (pad_to 32 (TextEncoder_encode (js ''pw'' @ PEPPER) @ [1, 2, 3])
                          @ pad_to 32 ([1, 2, 3] @ TextEncoder_encode (js ''round2''))),
            key_extractable = False, key_usages = [Usage_encrypt, Usage_decrypt]\<rparr>"
proof -
  have d: "deriveKey example_platform (js ''pw'') [1, 2, 3] 4 =
     Inr \<lparr>key_alg = AES_GCM_key 256,
          key_data = pad_to 32 (pad_to 32 (TextEncoder_encode (js ''pw'' @ PEPPER) @ [1, 2, 3])
                        @ pad_to 32 ([1, 2, 3] @ TextEncoder_encode (js ''round2''))),
          key_extractable = False, key_usages = [Usage_encrypt, Usage_decrypt]\<rparr>"
    by (simp add: deriveKey_def subtle_importKey_def subtle_deriveKey_def
          subtle_exportKey_def subtle_digest_def bind_err_def KEY_LENGTH_def Let_def
          example_platform_def)
  have two: "(2::nat) \<le> 4" by simp
  have acc: "\<exists>bits. PBKDF2 example_platform h password s i 256 = Inr bits \<and> 8 * length bits = 256"
    if "1 \<le> i" "i \<le> 4" for h password s i
    using that(1) by (rule ex_pbkdf2_accepts)
  from C8_deriveKey_two_rounds [of 4 example_platform "js ''pw''" "[1, 2, 3]", OF two acc] d two
  show ?thesis by blast
qed

lemma xor_eq_0_word: "((a::32 word) XOR b = 0) = (a = b)"
  by (metis xor.assoc xor_self_eq xor.right_neutral xor.left_neutral)

lemma ucast_16_32_inj: "(ucast (a::16 word) :: 32 word) = ucast b \<Longrightarrow> a = b"
proof -
  assume h: "(ucast a :: 32 word) = ucast b"
  have "(ucast (ucast a :: 32 word) :: 16 word) = a" "(ucast (ucast b :: 32 word) :: 16 word) = b"
    by (simp_all add: ucast_up_ucast_id is_up)
  with h show "a = b" by metis
qed

lemma constantTimeCompare_loop_zero:
  "(constantTimeCompare_loop a b i r = 0) =
     (r = 0 \<and> (\<forall>j. i \<le> j \<and> j < length a \<longrightarrow> a ! j = b ! j))"
proof (induction a b i r rule: constantTimeCompare_loop.induct)
  case (1 a b i r)
  show ?case
  proof (cases "i < length a")
    case True
    have "(\<forall>j. i \<le> j \<and> j < length a \<longrightarrow> a ! j = b ! j) =
          (a ! i = b ! i \<and> (\<forall>j. i + 1 \<le> j \<and> j < length a \<longrightarrow> a ! j = b ! j))"
    proof -
      have "i \<le> j \<longleftrightarrow> j = i \<or> i + 1 \<le> j" for j by auto
      with True show ?thesis by auto
    qed
    with True "1.IH" show ?thesis
      by (subst constantTimeCompare_loop.simps)
         (auto simp: or_eq_0_iff xor_eq_0_word dest: ucast_16_32_inj)
  next
    case False
    then show ?thesis by (subst constantTimeCompare_loop.simps) auto
  qed
qed

lemma constantTimeCompare_strings:
  "constantTimeCompare a (JStr s) = Inr (a = s)"
  by (auto simp: constantTimeCompare_def constantTimeCompare_loop_zero list_eq_iff_nth_eq)

lemma constantTimeCompare_True_iff:
  assumes "a \<noteq> []"
  shows "(constantTimeCompare a b = Inr True) = (b = JStr a)"
proof (cases b)
  case (JStr s)
  then show ?thesis by (auto simp: constantTimeCompare_strings)
next
  case (JObj r props)
  with assms show ?thesis
    by (auto simp: constantTimeCompare_def split: jsval.splits)
qed (use assms in \<open>auto simp: constantTimeCompare_def\<close>)

lemma unat_ucast_8_16: "unat (ucast (b::8 word) :: 16 word) = unat b"
  by transfer (simp add: take_bit_eq_mod nat_take_bit_eq)

lemma arrayBufferToBase64_eq:
  "arrayBufferToBase64 buffer = Inr (b64_encode_groups (map unat buffer))"
proof -
  have "\<not> list_ex (\<lambda>c. 0xFF < unat c) (map ucast buffer :: 16 word list)"
  proof -
    have "unat (ucast b :: 16 word) \<le> 0xFF" for b :: "8 word"
      using unsigned_less [of b, where 'a = nat] by (simp add: unat_ucast_8_16)
    then show ?thesis by (auto simp: list_ex_iff not_less)
  qed
  then show ?thesis
    by (simp add: arrayBufferToBase64_def btoa_def unat_ucast_8_16 comp_def)
qed

lemma b64_encode_groups_nonempty: "ns \<noteq> [] \<Longrightarrow> b64_encode_groups ns \<noteq> []"
  by (induction ns rule: b64_encode_groups.induct) (simp_all add: Let_def)

lemma verifyPassword_try_Inr:
  assumes hm: "\<And>key data. HMAC X SHA_512 key data \<noteq> []"
  shows "(verifyPassword_try X pw sh = Inr True) =
     (\<exists>hashData salt_value salt_bytes stored.
        JSON_parse X sh = Inr hashData
      \<and> get_member hashData (js ''salt'') = Inr salt_value
      \<and> base64ToArrayBuffer (js_ToString X salt_value) = Inr salt_bytes
      \<and> salt_bytes \<noteq> []
      \<and> get_member hashData (js ''hash'') = Inr (JStr stored)
      \<and> arrayBufferToBase64 (HMAC X SHA_512 salt_bytes (TextEncoder_encode (pw @ PEPPER)))
          = Inr stored)"
proof -
  have ne: "b64_encode_groups (map unat (HMAC X SHA_512 k d)) \<noteq> []" for k d
    using hm [of k d] by (intro b64_encode_groups_nonempty) simp
  show ?thesis
    by (auto simp: verifyPassword_try_def bind_err_def Let_def subtle_importKey_def
          subtle_sign_def arrayBufferToBase64_eq constantTimeCompare_True_iff [OF ne]
          split: sum.splits if_splits)
qed

text \<open>
  Claim C10: \<open>verifyPassword\<close> always returns a boolean.  It returns \<open>true\<close> exactly when
  the stored hash parses, its \<open>salt\<close> decodes from base64 to a non-empty key, and its
  \<open>hash\<close> is a string equal to the base64 text of the HMAC-SHA-512 of the peppered password
  under that key.  In particular it returns \<open>false\<close> when the stored hash is not valid JSON
  and when the parsed object has no \<open>salt\<close> or no \<open>hash\<close>.  The platform's HMAC returns
  a non-empty digest.
\<close>

theorem C10_verifyPassword:
  assumes hm: "\<And>key data. HMAC X SHA_512 key data \<noteq> []"
  shows "(\<exists>b. verifyPassword X pw sh = Inr b)
   \<and> ((verifyPassword X pw sh = Inr True) =
       (\<exists>hashData salt_value salt_bytes stored.
          JSON_parse X sh = Inr hashData
        \<and> get_member hashData (js ''salt'') = Inr salt_value
        \<and> base64ToArrayBuffer (js_ToString X salt_value) = Inr salt_bytes
        \<and> salt_bytes \<noteq> []
        \<and> get_member hashData (js ''hash'') = Inr (JStr stored)
        \<and> arrayBufferToBase64 (HMAC X SHA_512 salt_bytes (TextEncoder_encode (pw @ PEPPER)))
            = Inr stored))
   \<and> ((\<exists>err. JSON_parse X sh = Inl err) \<longrightarrow> verifyPassword X pw sh = Inr False)
   \<and> (\<forall>r props. JSON_parse X sh = Inr (JObj r props) \<and> js ''salt'' \<notin> fst ` set props
          \<longrightarrow> verifyPassword X pw sh = Inr False)
   \<and> (\<forall>r props. JSON_parse X sh = Inr (JObj r props) \<and> js ''hash'' \<notin> fst ` set props
          \<longrightarrow> verifyPassword X pw sh = Inr False)"
proof -
  have total: "\<exists>b. verifyPassword X pw sh = Inr b"
    by (cases "verifyPassword_try X pw sh") (auto simp: verifyPassword_def)
  have v: "(verifyPassword X pw sh = Inr True) = (verifyPassword_try X pw sh = Inr True)"
    by (auto simp: verifyPassword_def split: sum.splits)
  have f: "verifyPassword X pw sh = Inr False" if "verifyPassword_try X pw sh \<noteq> Inr True"
    using that by (auto simp: verifyPassword_def split: sum.splits)
  have bad_json: "verifyPassword X pw sh = Inr False" if "JSON_parse X sh = Inl err" for err
    using that by (intro f) (simp add: verifyPassword_try_def bind_err_def)
  have undef: "base64ToArrayBuffer (js ''undefined'') = Inl (DOMException ''InvalidCharacterError'')"
    by (simp add: base64ToArrayBuffer_def bind_err_def atob_def js_def strip_padding_def
          is_ascii_whitespace_def)
  have no_salt: "verifyPassword X pw sh = Inr False"
    if "JSON_parse X sh = Inr (JObj r props)" "js ''salt'' \<notin> fst ` set props" for r props
  proof -
    have "map_of props (js ''salt'') = None" using that(2) by (simp add: map_of_eq_None_iff)
    then show ?thesis
      using that(1) undef
      by (intro f) (simp add: verifyPassword_try_def bind_err_def get_member_def obj_get_def)
  qed
  have no_hash: "verifyPassword X pw sh = Inr False"
    if "JSON_parse X sh = Inr (JObj r props)" "js ''hash'' \<notin> fst ` set props" for r props
  proof -
    have "map_of props (js ''hash'') = None" using that(2) by (simp add: map_of_eq_None_iff)
    then have "verifyPassword_try X pw sh \<noteq> Inr True"
      using that(1) by (simp add: verifyPassword_try_Inr [OF hm] get_member_def obj_get_def)
    then show ?thesis by (rule f)
  qed
  from total v verifyPassword_try_Inr [OF hm, of pw sh] bad_json no_salt no_hash
  show ?thesis by blast
qed

lemma ex_hmac: "HMAC example_platform SHA_512 key data \<noteq> []"
  by (simp add: example_platform_def pad_to_def)

lemma ex_parse_stored: "JSON_parse example_platform (js ''stored'') = Inr example_hash_record"
  by (simp add: example_platform_def)

lemma ex_stored_salt: "get_member example_hash_record (js ''salt'') = Inr (JStr (js ''AQID''))"
  by (simp add: example_hash_record_def get_member_def obj_get_def js_def)

lemma ex_salt_bytes: "base64ToArrayBuffer (js_ToString example_platform (JStr (js ''AQID''))) = Inr [1, 2, 3]"
  by (simp add: base64ToArrayBuffer_def bind_err_def atob_def js_def strip_padding_def
      is_ascii_whitespace_def b64_index_def)

lemma ex_stored_hash: "get_member example_hash_record (js ''hash'') =
    Inr (JStr (js (''AQIDcHdTZWN1cmVTeW5jLXYxLXBlcHBlci0yMDI2AAAAAAAAAAAAAAAAAAAA''
                      @ ''AAAAAAAAAAAAAAAAAAAAAAAAAA=='')))"
  by (simp add: example_hash_record_def get_member_def obj_get_def js_def)

lemma replicate_numeral_unfold: "replicate (numeral k) x = x # replicate (pred_numeral k) x"
  by (simp add: numeral_eq_Suc)

lemma ex_recomputed_hash: "arrayBufferToBase64 (HMAC example_platform SHA_512 [1, 2, 3] (TextEncoder_encode (js ''pw'' @ PEPPER)))
   = Inr (js (''AQIDcHdTZWN1cmVTeW5jLXYxLXBlcHBlci0yMDI2AAAAAAAAAAAAAAAAAAAA''
                      @ ''AAAAAAAAAAAAAAAAAAAAAAAAAA==''))"
  by (simp add: arrayBufferToBase64_eq example_platform_def pad_to_def PEPPER_def js_def
      TextEncoder_encode_def utf8_encode_scalar_def scalar_of_unit_def is_high_surrogate_def
      is_low_surrogate_def b64_char_def Let_def replicate_numeral_unfold)

theorem C10_witness:
  "verifyPassword example_platform (js ''pw'') (js ''stored'') = Inr True
   \<and> verifyPassword example_platform (js ''pw'') (js ''garbage'') = Inr False"
proof -
  have p: "JSON_parse example_platform (js ''garbage'') = Inl SyntaxError"
    by (simp add: example_platform_def js_def)
  from C10_verifyPassword [of example_platform "js ''pw''" "js ''stored''", OF ex_hmac]
  have "verifyPassword example_platform (js ''pw'') (js ''stored'') = Inr True"
    using ex_parse_stored ex_stored_salt ex_salt_bytes ex_stored_hash ex_recomputed_hash by blast
  moreover from C10_verifyPassword [of example_platform "js ''pw''" "js ''garbage''", OF ex_hmac] p
  have "verifyPassword example_platform (js ''pw'') (js ''garbage'') = Inr False"
    by blast
  ultimately show ?thesis by simp
qed

subsection \<open>Base64\<close>

lemma div_4096: "(n::nat) div 0x1000 = n div 0x40 div 0x40" by (simp add: div_mult2_eq [symmetric])
lemma div_262144: "(n::nat) div 0x40000 = n div 0x40 div 0x40 div 0x40" by (simp add: div_mult2_eq [symmetric])

lemma sextets_recombine:
  "(n::nat) div 0x40000 * 0x40000 + n div 0x1000 mod 0x40 * 0x1000 + n div 0x40 mod 0x40 * 0x40 + n mod 0x40 = n"
proof -
  define q1 where "q1 = n div 0x40"
  define q2 where "q2 = q1 div 0x40"
  define q3 where "q3 = q2 div 0x40"
  define r0 where "r0 = n mod 0x40"
  define r1 where "r1 = q1 mod 0x40"
  define r2 where "r2 = q2 mod 0x40"
  have 1: "n = q1 * 0x40 + r0" by (simp add: q1_def r0_def)
  have 2: "q1 = q2 * 0x40 + r1" by (simp add: q2_def r1_def)
  have 3: "q2 = q3 * 0x40 + r2" by (simp add: q3_def r2_def)
  have "n div 0x40000 = q3" "n div 0x1000 = q2" by (simp_all add: div_4096 div_262144 q1_def q2_def q3_def)
  then have "n div 0x40000 * 0x40000 + n div 0x1000 mod 0x40 * 0x1000 + n div 0x40 mod 0x40 * 0x40 + n mod 0x40
     = q3 * 0x40000 + r2 * 0x1000 + r1 * 0x40 + r0"
    by (simp add: q1_def r0_def r1_def r2_def)
  also have "\<dots> = n" using 1 2 3 by simp
  finally show ?thesis .
qed

lemma bytes3:
  assumes "x < 256" "y < 256" "z < 256"
  shows "(x * 0x10000 + y * 0x100 + z) div 0x10000 = (x::nat)"
    and "(x * 0x10000 + y * 0x100 + z) div 0x100 mod 0x100 = y"
    and "(x * 0x10000 + y * 0x100 + z) mod 0x100 = z"
proof -
  have a: "(x * 0x10000 + y * 0x100 + z) div 0x100 = x * 0x100 + y"
    using assms by simp
  have "(x * 0x10000 + y * 0x100 + z) div 0x10000 = (x * 0x10000 + y * 0x100 + z) div 0x100 div 0x100"
    by (simp add: div_mult2_eq [symmetric])
  also have "\<dots> = x" using assms a by simp
  finally show "(x * 0x10000 + y * 0x100 + z) div 0x10000 = (x::nat)" .
  show "(x * 0x10000 + y * 0x100 + z) div 0x100 mod 0x100 = y"
    using assms a by simp
  have "x * 0x10000 + y * 0x100 + z = (x * 0x100 + y) * 0x100 + z" by simp
  then show "(x * 0x10000 + y * 0x100 + z) mod 0x100 = z"
    using assms by (simp only: mod_mult_self3) simp
qed

lemma sextets3_recombine:
  "(n::nat) div 0x1000 * 0x1000 + n div 0x40 mod 0x40 * 0x40 + n mod 0x40 = n"
proof -
  define q1 where "q1 = n div 0x40"
  define q2 where "q2 = q1 div 0x40"
  define r0 where "r0 = n mod 0x40"
  define r1 where "r1 = q1 mod 0x40"
  have 1: "n = q1 * 0x40 + r0" by (simp add: q1_def r0_def)
  have 2: "q1 = q2 * 0x40 + r1" by (simp add: q2_def r1_def)
  have "n div 0x1000 = q2" by (simp add: div_4096 q1_def q2_def)
  then have "n div 0x1000 * 0x1000 + n div 0x40 mod 0x40 * 0x40 + n mod 0x40
     = q2 * 0x1000 + r1 * 0x40 + r0"
    by (simp add: q1_def r0_def r1_def)
  also have "\<dots> = n" using 1 2 by simp
  finally show ?thesis .
qed

lemma sextets2_recombine: "(n::nat) div 0x40 * 0x40 + n mod 0x40 = n"
  by simp

lemma bytes2:
  assumes "x < 256" "y < 256"
  shows "(x * 0x100 + y) * 4 div 4 div 0x100 = (x::nat)"
    and "(x * 0x100 + y) * 4 div 4 mod 0x100 = y"
  using assms by simp_all

lemma sextet_bounds:
  "(n::nat) < 0x1000000 \<Longrightarrow> n div 0x40000 < 0x40"
  "(n::nat) < 0x40000 \<Longrightarrow> n div 0x1000 < 0x40"
  "(n::nat) < 0x1000 \<Longrightarrow> n div 0x40 < 0x40"
  by simp_all

lemma unat_b64_char:
  "unat (b64_char i) =
     (if i < 26 then 0x41 + i else if i < 52 then 0x61 + (i - 26)
      else if i < 62 then 0x30 + (i - 52) else if i = 62 then 0x2B else 0x2F)"
proof -
  have "unat (of_nat n :: 16 word) = n" if "n < 256" for n
    using that by (simp add: unat_of_nat)
  then show ?thesis
    unfolding b64_char_def by (simp del: of_nat_add of_nat_numeral of_nat_diff)
qed

lemma b64_index_b64_char: "i < 64 \<Longrightarrow> b64_index (b64_char i) = Some i"
  unfolding b64_index_def Let_def unat_b64_char by (simp, arith)

lemma b64_char_not_pad: "b64_char i \<noteq> 0x3D"
proof
  assume "b64_char i = 0x3D"
  then have "unat (b64_char i) = 0x3D" by simp
  then show False unfolding unat_b64_char by (simp split: if_splits)
qed

lemma b64_char_not_space: "\<not> is_ascii_whitespace (b64_char i)"
proof
  assume "is_ascii_whitespace (b64_char i)"
  then have "unat (b64_char i) \<in> {0x09, 0x0A, 0x0C, 0x0D, 0x20}"
    unfolding is_ascii_whitespace_def by auto
  then show False unfolding unat_b64_char by (simp split: if_splits, arith)
qed

lemma b64_encode_groups_split:
  "b64_encode_groups ns = map b64_char (b64_sextets ns) @ b64_padding ns"
  by (induction ns rule: b64_encode_groups.induct) (simp_all add: Let_def)

lemma b64_padding_cases: "b64_padding ns = [] \<or> b64_padding ns = [0x3D] \<or> b64_padding ns = [0x3D, 0x3D]"
  by (induction ns rule: b64_padding.induct) simp_all

lemma length_b64_encode_groups: "length (b64_encode_groups ns) mod 4 = 0"
  by (induction ns rule: b64_encode_groups.induct) (simp_all add: Let_def)

lemma length_b64_sextets: "length (b64_sextets ns) mod 4 \<noteq> 1"
  by (induction ns rule: b64_sextets.induct) (simp_all add: Let_def)

lemma b64_sextets_bound:
  "\<forall>n \<in> set ns. n < 256 \<Longrightarrow> \<forall>s \<in> set (b64_sextets ns). s < 64"
proof (induction ns rule: b64_sextets.induct)
  case (1 x y z rest)
  then have "x * 0x10000 + y * 0x100 + z < 0x1000000" by simp
  then have "(x * 0x10000 + y * 0x100 + z) div 0x40000 < 0x40" by (rule sextet_bounds)
  with 1 show ?case by (simp add: Let_def)
next
  case (2 x y)
  then have "(x * 0x100 + y) * 4 < 0x40000" by simp
  then have "(x * 0x100 + y) * 4 div 0x1000 < 0x40" by (rule sextet_bounds)
  then show ?case by (simp add: Let_def)
next
  case (3 x)
  then have "x * 0x10 < 0x1000" by simp
  then have "x * 0x10 div 0x40 < 0x40" by (rule sextet_bounds)
  then show ?case by (simp add: Let_def)
qed simp

lemma those_indices_b64_char:
  "\<forall>s \<in> set sx. s < 64 \<Longrightarrow> those_indices (map b64_char sx) = Some sx"
  by (induction sx) (simp_all add: b64_index_b64_char)

lemma filter_whitespace_encoded:
  "filter (\<lambda>c. \<not> is_ascii_whitespace c) (map b64_char sx @ pad) = map b64_char sx @ pad"
  if "pad = [] \<or> pad = [0x3D] \<or> pad = [0x3D, 0x3D]"
proof -
  have "\<not> is_ascii_whitespace (0x3D :: code_unit)" by (simp add: is_ascii_whitespace_def)
  with that show ?thesis by (auto simp: b64_char_not_space filter_id_conv)
qed

lemma strip_padding_encoded:
  assumes "pad = [] \<or> pad = [0x3D] \<or> pad = [0x3D, 0x3D]"
    and "length (map b64_char sx @ pad) mod 4 = 0"
    and "pad \<noteq> [] \<longrightarrow> sx \<noteq> []"
  shows "strip_padding (map b64_char sx @ pad) = map b64_char sx"
proof -
  consider "pad = []" | "pad = [0x3D]" | "pad = [0x3D, 0x3D]" using assms(1) by blast
  then show ?thesis
  proof cases
    case 1
    show ?thesis
    proof (cases "sx = []")
      case True
      with 1 show ?thesis by (simp add: strip_padding_def)
    next
      case False
      then have "last (map b64_char sx) \<noteq> 0x3D" by (simp add: last_map b64_char_not_pad)
      with 1 show ?thesis by (simp add: strip_padding_def)
    qed
  next
    case 2
    with assms(3) have ne: "sx \<noteq> []" by simp
    then have "last (map b64_char sx) \<noteq> 0x3D" by (simp add: last_map b64_char_not_pad)
    with 2 ne assms(2) show ?thesis by (simp add: strip_padding_def butlast_append)
  next
    case 3
    with assms(2) show ?thesis by (simp add: strip_padding_def butlast_append)
  qed
qed

lemma b64_padding_sextets: "b64_padding ns \<noteq> [] \<Longrightarrow> b64_sextets ns \<noteq> []"
  by (induction ns rule: b64_padding.induct) (simp_all add: Let_def)

lemma b64_decode_sextets:
  "\<forall>n \<in> set ns. n < 256 \<Longrightarrow> b64_decode_groups (b64_sextets ns) = map of_nat ns"
proof (induction ns rule: b64_sextets.induct)
  case (1 x y z rest)
  then have b: "x < 256" "y < 256" "z < 256" by simp_all
  from 1 have IH: "b64_decode_groups (b64_sextets rest) = map of_nat rest" by simp
  show ?case
    by (simp add: Let_def IH sextets_recombine bytes3 [OF b])
next
  case (2 x y)
  then have b: "x < 256" "y < 256" by simp_all
  show ?case
    by (simp add: Let_def sextets3_recombine bytes2 [OF b, simplified])
next
  case (3 x)
  have r: "x * 0x10 div 0x40 * 0x40 + x * 0x10 mod 0x40 = x * 0x10"
    by (rule sextets2_recombine)
  show ?case
    unfolding b64_sextets.simps b64_decode_groups.simps Let_def r by simp
qed simp

lemma atob_b64_encode_groups:
  assumes "\<forall>n \<in> set ns. n < 256"
  shows "atob (b64_encode_groups ns) = Inr (map of_nat ns)"
proof -
  let ?sx = "b64_sextets ns" and ?pad = "b64_padding ns"
  have split: "b64_encode_groups ns = map b64_char ?sx @ ?pad" by (rule b64_encode_groups_split)
  have len: "length (map b64_char ?sx @ ?pad) mod 4 = 0"
    using length_b64_encode_groups [of ns] by (simp add: split)
  have f: "filter (\<lambda>c. \<not> is_ascii_whitespace c) (b64_encode_groups ns) = map b64_char ?sx @ ?pad"
    unfolding split by (rule filter_whitespace_encoded) (rule b64_padding_cases)
  have s: "strip_padding (map b64_char ?sx @ ?pad) = map b64_char ?sx"
    using b64_padding_cases len b64_padding_sextets by (intro strip_padding_encoded) auto
  have l: "length (map b64_char ?sx) mod 4 \<noteq> 1" using length_b64_sextets [of ns] by simp
  have t: "those_indices (map b64_char ?sx) = Some ?sx"
    using b64_sextets_bound [OF assms] by (rule those_indices_b64_char)
  show ?thesis
    unfolding atob_def f s Let_def using l t b64_decode_sextets [OF assms] by simp
qed

lemma base64_roundtrip:
  "arrayBufferToBase64 buffer = Inr s \<Longrightarrow> base64ToArrayBuffer s = Inr buffer"
proof -
  assume a: "arrayBufferToBase64 buffer = Inr s"
  have bound: "\<forall>n \<in> set (map unat buffer). n < 256"
  proof
    fix n assume "n \<in> set (map unat buffer)"
    then obtain b :: "8 word" where "n = unat b" by auto
    then show "n < 256" using unsigned_less [of b, where 'a = nat] by simp
  qed
  have e: "arrayBufferToBase64 buffer = Inr (b64_encode_groups (map unat buffer))"
  proof -
    have "\<not> list_ex (\<lambda>c. 0xFF < unat c) (map ucast buffer :: 16 word list)"
      using bound by (auto simp: list_ex_iff not_less unat_ucast_8_16)
    then show ?thesis
      by (simp add: arrayBufferToBase64_def btoa_def unat_ucast_8_16 comp_def)
  qed
  with a have s: "s = b64_encode_groups (map unat buffer)" by simp
  have "map (\<lambda>b. ucast (of_nat (unat b) :: 16 word) :: 8 word) buffer = buffer"
    by (simp add: ucast_up_ucast_id is_up map_idI)
  then show ?thesis
    unfolding s base64ToArrayBuffer_def atob_b64_encode_groups [OF bound] bind_err_def
    by (simp add: comp_def)
qed

subsection \<open>UTF-8 and UTF-16\<close>

lemma utf8_decoder_continue:
  assumes "0 < needed" and "lower \<le> unat b" and "unat b \<le> upper"
  shows "utf8_decoder needed cp lower upper (b # bs) =
           (if needed = 1 then (cp * 0x40 + unat b mod 0x40) # utf8_decoder 0 0 0x80 0xBF bs
            else utf8_decoder (needed - 1) (cp * 0x40 + unat b mod 0x40) 0x80 0xBF bs)"
proof -
  from assms(1) obtain r where r: "needed = Suc r" by (cases needed) auto
  show ?thesis using assms(2,3) unfolding r by (simp add: Let_def)
qed

lemma unat_byte: "n < 256 \<Longrightarrow> unat (of_nat n :: byte) = n"
  by (simp add: unat_of_nat)

lemma div64_64: "(n::nat) div 0x1000 = n div 0x40 div 0x40"
  by (simp add: div_mult2_eq [symmetric])

lemma decompose64:
  fixes c q2 r1 r0 :: nat
  assumes "q2 = c div 0x1000" "r1 = c div 0x40 mod 0x40" "r0 = c mod 0x40"
  shows "c = q2 * 0x1000 + r1 * 0x40 + r0" and "c div 0x40 = q2 * 0x40 + r1"
    and "r0 < 0x40" and "r1 < 0x40"
proof -
  define q1 where "q1 = c div 0x40"
  have 1: "c = q1 * 0x40 + r0" by (simp add: q1_def assms)
  have 2: "q1 = q2 * 0x40 + r1" by (simp add: q1_def assms div64_64)
  show "c = q2 * 0x1000 + r1 * 0x40 + r0" using 1 2 by simp
  show "c div 0x40 = q2 * 0x40 + r1" using 2 by (simp add: q1_def)
  show "r0 < 0x40" "r1 < 0x40" by (simp_all add: assms)
qed

lemma utf8_one:
  assumes "c < 0x80"
  shows "utf8_decoder 0 cp lo hi (utf8_encode_scalar c @ rest) = c # utf8_decoder 0 0 0x80 0xBF rest"
  using assms by (simp add: utf8_encode_scalar_def Let_def unat_byte)

lemma utf8_two:
  assumes "0x80 \<le> c" "c < 0x800"
  shows "utf8_decoder 0 cp lo hi (utf8_encode_scalar c @ rest) = c # utf8_decoder 0 0 0x80 0xBF rest"
proof -
  define q2 where "q2 = c div 0x1000"
  define r1 where "r1 = c div 0x40 mod 0x40"
  define r0 where "r0 = c mod 0x40"
  note d = decompose64 [OF q2_def r1_def r0_def]
  from d(1) assms have q2: "q2 = 0" by linarith
  from d(1,3,4) assms q2 have r1: "2 \<le> r1" "r1 < 0x20" by - linarith+
  have b1: "unat (of_nat (0xC0 + c div 0x40) :: byte) = 0xC0 + r1"
    unfolding d(2) using q2 r1 by (simp add: unat_byte del: of_nat_add of_nat_numeral)
  have b2: "unat (of_nat (0x80 + c mod 0x40) :: byte) = 0x80 + r0"
    unfolding r0_def [symmetric] using d(3) by (simp add: unat_byte del: of_nat_add of_nat_numeral)
  have m1: "(0xC0 + r1) mod 0x20 = r1" using r1 by (simp add: mod_if)  
  have m2: "(0x80 + r0) mod 0x40 = r0" using d(3) by (simp add: mod_if)
  have enc: "utf8_encode_scalar c = [of_nat (0xC0 + c div 0x40), of_nat (0x80 + c mod 0x40)]"
    using assms by (simp add: utf8_encode_scalar_def)
  have "utf8_decoder 0 cp lo hi (utf8_encode_scalar c @ rest) =
        utf8_decoder 1 r1 0x80 0xBF (of_nat (0x80 + c mod 0x40) # rest)"
    unfolding enc using r1 by (simp add: Let_def b1 m1 del: of_nat_add of_nat_numeral)
  also have "\<dots> = (r1 * 0x40 + r0) # utf8_decoder 0 0 0x80 0xBF rest"
    using d(3) by (subst utf8_decoder_continue) (simp_all add: b2 m2 del: of_nat_add of_nat_numeral)
  finally show ?thesis using d(1) q2 by simp
qed

lemma utf8_three:
  assumes "0x800 \<le> c" "c < 0x10000" "\<not> (0xD800 \<le> c \<and> c \<le> 0xDFFF)"
  shows "utf8_decoder 0 cp lo hi (utf8_encode_scalar c @ rest) = c # utf8_decoder 0 0 0x80 0xBF rest"
proof -
  define q2 where "q2 = c div 0x1000"
  define r1 where "r1 = c div 0x40 mod 0x40"
  define r0 where "r0 = c mod 0x40"
  note d = decompose64 [OF q2_def r1_def r0_def]
  from d(1) assms have q2: "q2 < 0x10" by linarith
  have lower: "0x20 \<le> r1" if "q2 = 0" using that d(1,3,4) assms(1) by linarith
  have upper: "r1 < 0x20" if "q2 = 0xD" using that d(1,3,4) assms(3) by linarith
  have b1: "unat (of_nat (0xE0 + c div 0x1000) :: byte) = 0xE0 + q2"
    unfolding q2_def [symmetric] using q2 by (simp add: unat_byte del: of_nat_add of_nat_numeral)
  have b2: "unat (of_nat (0x80 + c div 0x40 mod 0x40) :: byte) = 0x80 + r1"
    unfolding r1_def [symmetric] using d(4) by (simp add: unat_byte del: of_nat_add of_nat_numeral)
  have b3: "unat (of_nat (0x80 + c mod 0x40) :: byte) = 0x80 + r0"
    unfolding r0_def [symmetric] using d(3) by (simp add: unat_byte del: of_nat_add of_nat_numeral)
  have m1: "(0xE0 + q2) mod 0x10 = q2" using q2 by (simp add: mod_if)
  have m2: "(0x80 + r1) mod 0x40 = r1" using d(4) by (simp add: mod_if)
  have m3: "(0x80 + r0) mod 0x40 = r0" using d(3) by (simp add: mod_if)
  have enc: "utf8_encode_scalar c =
      [of_nat (0xE0 + c div 0x1000), of_nat (0x80 + c div 0x40 mod 0x40), of_nat (0x80 + c mod 0x40)]"
    using assms by (simp add: utf8_encode_scalar_def)
  let ?lo = "if 0xE0 + q2 = 0xE0 then 0xA0 else 0x80 :: nat"
  let ?hi = "if 0xE0 + q2 = 0xED then 0x9F else 0xBF :: nat"
  have "utf8_decoder 0 cp lo hi (utf8_encode_scalar c @ rest) =
        utf8_decoder 2 q2 ?lo ?hi
          (of_nat (0x80 + c div 0x40 mod 0x40) # of_nat (0x80 + c mod 0x40) # rest)"
    unfolding enc using q2 by (simp add: Let_def b1 m1 del: of_nat_add of_nat_numeral)
  also have "\<dots> = utf8_decoder 1 (q2 * 0x40 + r1) 0x80 0xBF (of_nat (0x80 + c mod 0x40) # rest)"
    using d(4) lower upper
    by (subst utf8_decoder_continue) (auto simp: b2 m2 simp del: of_nat_add of_nat_numeral)
  also have "\<dots> = ((q2 * 0x40 + r1) * 0x40 + r0) # utf8_decoder 0 0 0x80 0xBF rest"
    using d(3) by (subst utf8_decoder_continue) (simp_all add: b3 m3 del: of_nat_add of_nat_numeral)
  finally show ?thesis using d(1) by simp
qed

lemma div64_64_64: "(n::nat) div 0x40000 = n div 0x1000 div 0x40"
  by (simp add: div_mult2_eq [symmetric])

lemma utf8_four:
  assumes "0x10000 \<le> c" "c < 0x110000"
  shows "utf8_decoder 0 cp lo hi (utf8_encode_scalar c @ rest) = c # utf8_decoder 0 0 0x80 0xBF rest"
proof -
  define q2 where "q2 = c div 0x1000"
  define r1 where "r1 = c div 0x40 mod 0x40"
  define r0 where "r0 = c mod 0x40"
  define q3 where "q3 = c div 0x40000"
  define r2 where "r2 = c div 0x1000 mod 0x40"
  note d = decompose64 [OF q2_def r1_def r0_def]
  have q2: "q2 = q3 * 0x40 + r2" by (simp add: q2_def q3_def r2_def div64_64_64)
  have r2: "r2 < 0x40" by (simp add: r2_def)
  have c: "c = q3 * 0x40000 + r2 * 0x1000 + r1 * 0x40 + r0" using d(1) q2 by simp
  from c assms have q3: "q3 < 5" by linarith
  have lower: "0x10 \<le> r2" if "q3 = 0" using that c r2 d(3,4) assms(1) by linarith
  have upper: "r2 < 0x10" if "q3 = 4" using that c r2 d(3,4) assms(2) by linarith
  have b1: "unat (of_nat (0xF0 + c div 0x40000) :: byte) = 0xF0 + q3"
    unfolding q3_def [symmetric] using q3 by (simp add: unat_byte del: of_nat_add of_nat_numeral)
  have b2: "unat (of_nat (0x80 + c div 0x1000 mod 0x40) :: byte) = 0x80 + r2"
    unfolding r2_def [symmetric] using r2 by (simp add: unat_byte del: of_nat_add of_nat_numeral)
  have b3: "unat (of_nat (0x80 + c div 0x40 mod 0x40) :: byte) = 0x80 + r1"
    unfolding r1_def [symmetric] using d(4) by (simp add: unat_byte del: of_nat_add of_nat_numeral)
  have b4: "unat (of_nat (0x80 + c mod 0x40) :: byte) = 0x80 + r0"
    unfolding r0_def [symmetric] using d(3) by (simp add: unat_byte del: of_nat_add of_nat_numeral)
  have m1: "(0xF0 + q3) mod 0x08 = q3" using q3 by (simp add: mod_if)
  have m2: "(0x80 + r2) mod 0x40 = r2" using r2 by (simp add: mod_if)
  have m3: "(0x80 + r1) mod 0x40 = r1" using d(4) by (simp add: mod_if)
  have m4: "(0x80 + r0) mod 0x40 = r0" using d(3) by (simp add: mod_if)
  have enc: "utf8_encode_scalar c =
      [of_nat (0xF0 + c div 0x40000), of_nat (0x80 + c div 0x1000 mod 0x40),
       of_nat (0x80 + c div 0x40 mod 0x40), of_nat (0x80 + c mod 0x40)]"
    using assms by (simp add: utf8_encode_scalar_def)
  let ?lo = "if 0xF0 + q3 = 0xF0 then 0x90 else 0x80 :: nat"
  let ?hi = "if 0xF0 + q3 = 0xF4 then 0x8F else 0xBF :: nat"
  have "utf8_decoder 0 cp lo hi (utf8_encode_scalar c @ rest) =
        utf8_decoder 3 q3 ?lo ?hi
          (of_nat (0x80 + c div 0x1000 mod 0x40) # of_nat (0x80 + c div 0x40 mod 0x40)
           # of_nat (0x80 + c mod 0x40) # rest)"
    unfolding enc using q3 by (simp add: Let_def b1 m1 del: of_nat_add of_nat_numeral)
  also have "\<dots> = utf8_decoder 2 (q3 * 0x40 + r2) 0x80 0xBF
          (of_nat (0x80 + c div 0x40 mod 0x40) # of_nat (0x80 + c mod 0x40) # rest)"
    using r2 lower upper
    by (subst utf8_decoder_continue) (auto simp: b2 m2 simp del: of_nat_add of_nat_numeral)
  also have "\<dots> = utf8_decoder 1 ((q3 * 0x40 + r2) * 0x40 + r1) 0x80 0xBF
          (of_nat (0x80 + c mod 0x40) # rest)"
    using d(4) by (subst utf8_decoder_continue) (simp_all add: b3 m3 del: of_nat_add of_nat_numeral)
  also have "\<dots> = (((q3 * 0x40 + r2) * 0x40 + r1) * 0x40 + r0) # utf8_decoder 0 0 0x80 0xBF rest"
    using d(3) by (subst utf8_decoder_continue) (simp_all add: b4 m4 del: of_nat_add of_nat_numeral)
  finally show ?thesis using c by simp
qed

lemma utf8_scalar_roundtrip:
  assumes "is_scalar_value c"
  shows "utf8_decoder 0 cp lo hi (utf8_encode_scalar c @ rest) = c # utf8_decoder 0 0 0x80 0xBF rest"
proof -
  consider "c < 0x80" | "0x80 \<le> c" "c < 0x800" | "0x800 \<le> c" "c < 0x10000" | "0x10000 \<le> c"
    by linarith
  then show ?thesis
  proof cases
    case 1 then show ?thesis by (rule utf8_one)
  next
    case 2 then show ?thesis by (rule utf8_two)
  next
    case 3 with assms show ?thesis by (intro utf8_three) (simp_all add: is_scalar_value_def)
  next
    case 4 with assms show ?thesis by (intro utf8_four) (simp_all add: is_scalar_value_def)
  qed
qed

lemma utf8_roundtrip:
  "\<forall>c \<in> set cs. is_scalar_value c \<Longrightarrow>
     utf8_decoder 0 0 0x80 0xBF (concat (map utf8_encode_scalar cs)) = cs"
  by (induction cs) (simp_all add: utf8_scalar_roundtrip)

lemma unat_unit_less: "unat (u :: code_unit) < 0x10000"
  using unsigned_less [of u, where 'a = nat] by simp

lemma pair_scalar:
  assumes "is_high_surrogate u" "is_low_surrogate v"
  defines "c \<equiv> 0x10000 + (unat u - 0xD800) * 0x400 + (unat v - 0xDC00)"
  shows "is_scalar_value c" and "utf16_encode_scalar c = [u, v]"
proof -
  define a where "a = unat u - 0xD800"
  define b where "b = unat v - 0xDC00"
  have a: "a < 0x400" "unat u = 0xD800 + a"
    using assms(1) unfolding a_def is_high_surrogate_def by linarith+
  have b: "b < 0x400" "unat v = 0xDC00 + b"
    using assms(2) unfolding b_def is_low_surrogate_def by linarith+
  have c: "c = 0x10000 + a * 0x400 + b" by (simp add: c_def a_def b_def)
  from a(1) b(1) show "is_scalar_value c" unfolding is_scalar_value_def c by simp
  have "(c - 0x10000) div 0x400 = a" "(c - 0x10000) mod 0x400 = b"
    using b(1) by (simp_all add: c)
  moreover have "\<not> c < 0x10000" by (simp add: c)
  moreover have "(of_nat (0xD800 + a) :: code_unit) = u" "(of_nat (0xDC00 + b) :: code_unit) = v"
    using a(2) b(2) by (metis of_nat_unat ucast_id)+
  ultimately show "utf16_encode_scalar c = [u, v]"
    by (simp add: utf16_encode_scalar_def del: of_nat_add of_nat_numeral)
qed

lemma single_scalar:
  assumes "\<not> is_high_surrogate u" "\<not> is_low_surrogate u"
  shows "scalar_of_unit u = unat u" and "is_scalar_value (unat u)"
    and "utf16_encode_scalar (unat u) = [u]"
  using assms unat_unit_less [of u]
  by (auto simp: scalar_of_unit_def is_scalar_value_def utf16_encode_scalar_def
        is_high_surrogate_def is_low_surrogate_def)

lemma utf16_roundtrip:
  "well_formed_utf16 s \<Longrightarrow>
     (\<forall>c \<in> set (utf16_scalars s). is_scalar_value c)
     \<and> concat (map utf16_encode_scalar (utf16_scalars s)) = s"
proof (induction s rule: utf16_scalars.induct)
  case 1
  then show ?case by simp
next
  case (2 u)
  then show ?case by (simp add: single_scalar)
next
  case (3 u v rest)
  show ?case
  proof (cases "is_high_surrogate u \<and> is_low_surrogate v")
    case True
    with 3 show ?thesis by (simp add: pair_scalar)
  next
    case False
    with 3 show ?thesis by (simp add: single_scalar)
  qed
qed

lemma strip_BOM_scalars:
  assumes "well_formed_utf16 s" "\<not> starts_with_BOM s"
  shows "strip_BOM (utf16_scalars s) = utf16_scalars s"
proof (cases s rule: utf16_scalars.cases)
  case 1
  then show ?thesis by (simp add: strip_BOM_def)
next
  case (2 u)
  with assms have "\<not> is_high_surrogate u" "\<not> is_low_surrogate u" "u \<noteq> 0xFEFF"
    by (simp_all add: starts_with_BOM_def)
  moreover from this have "unat u \<noteq> 0xFEFF" by (metis of_nat_unat ucast_id of_nat_numeral)
  ultimately show ?thesis using 2 by (simp add: strip_BOM_def single_scalar)
next
  case (3 u v rest)
  show ?thesis
  proof (cases "is_high_surrogate u \<and> is_low_surrogate v")
    case True
    then show ?thesis using 3 by (simp add: strip_BOM_def)
  next
    case False
    with assms 3 have "\<not> is_high_surrogate u" "\<not> is_low_surrogate u" "u \<noteq> 0xFEFF"
      by (simp_all add: starts_with_BOM_def)
    moreover from this have "unat u \<noteq> 0xFEFF" by (metis of_nat_unat ucast_id of_nat_numeral)
    ultimately show ?thesis using 3 False by (simp add: strip_BOM_def single_scalar)
  qed
qed

lemma text_roundtrip:
  assumes "well_formed_utf16 s" "\<not> starts_with_BOM s"
  shows "TextDecoder_decode (TextEncoder_encode s) = s"
  using utf16_roundtrip [OF assms(1)] strip_BOM_scalars [OF assms]
  by (simp add: TextDecoder_decode_def TextEncoder_encode_def utf8_roundtrip)

subsection \<open>Encryption round trip\<close>

lemma deriveKey_key:
  assumes "deriveKey X S salt_bytes n = Inr k"
  shows "key_alg k = AES_GCM_key KEY_LENGTH" and "key_usages k = [Usage_encrypt, Usage_decrypt]"
  using assms
  by (auto simp: deriveKey_def subtle_importKey_def subtle_deriveKey_def subtle_exportKey_def
        bind_err_def Let_def split: sum.splits if_splits)

lemma bind_err_Inr: "bind_err r f = Inr y \<Longrightarrow> \<exists>x. r = Inr x \<and> f x = Inr y"
  by (cases r) (simp_all add: bind_err_def)

lemma encrypt_decrypt:
  assumes aead: "\<And>key iv_bytes data ct.
      AES_GCM_encrypt X key iv_bytes data = Inr ct \<Longrightarrow> AES_GCM_decrypt X key iv_bytes ct = Inr data"
    and enc: "fst (encrypt X P S e) = Inr E"
  shows "decrypt X E S = Inr (TextDecoder_decode (TextEncoder_encode P))"
proof -
  define salt_bytes where "salt_bytes = fst (generateSalt e)"
  define iv_bytes where "iv_bytes = fst (generateIV (snd (generateSalt e)))"
  define data where "data = TextEncoder_encode P"
  from enc have "bind_err (deriveKey X S salt_bytes PBKDF2_ITERATIONS)
         (\<lambda>key. bind_err (subtle_encrypt X iv_bytes key data)
         (\<lambda>ct. bind_err (arrayBufferToBase64 ct)
         (\<lambda>ct64. bind_err (arrayBufferToBase64 salt_bytes)
         (\<lambda>salt64. bind_err (arrayBufferToBase64 iv_bytes)
         (\<lambda>iv64. Inr \<lparr>ciphertext = ct64, salt = salt64, iv = iv64,
                iterations = Some PBKDF2_ITERATIONS\<rparr>))))) = Inr E"
    by (simp add: encrypt_def Let_def salt_bytes_def iv_bytes_def data_def split: prod.splits)
  then obtain key ct ct64 salt64 iv64 where
      k: "deriveKey X S salt_bytes PBKDF2_ITERATIONS = Inr key"
    and c: "subtle_encrypt X iv_bytes key data = Inr ct"
    and b1: "arrayBufferToBase64 ct = Inr ct64"
    and b2: "arrayBufferToBase64 salt_bytes = Inr salt64"
    and b3: "arrayBufferToBase64 iv_bytes = Inr iv64"
    and E: "E = \<lparr>ciphertext = ct64, salt = salt64, iv = iv64, iterations = Some PBKDF2_ITERATIONS\<rparr>"
    by (auto dest!: bind_err_Inr)
  note ku = deriveKey_key [OF k]
  from c ku have "AES_GCM_encrypt X (key_data key) iv_bytes data = Inr ct"
    by (simp add: subtle_encrypt_def)
  then have "AES_GCM_decrypt X (key_data key) iv_bytes ct = Inr data" by (rule aead)
  then have d: "subtle_decrypt X iv_bytes key ct = Inr data"
    using ku by (simp add: subtle_decrypt_def)
  show ?thesis
    unfolding decrypt_def E
    by (simp add: base64_roundtrip [OF b1] base64_roundtrip [OF b2] base64_roundtrip [OF b3]
          bind_err_def PBKDF2_ITERATIONS_def k [unfolded PBKDF2_ITERATIONS_def] d data_def)
qed

text \<open>
  Claim C1, amended: on a platform whose AES-GCM decrypts what it encrypted under the same
  key and IV, for every plaintext \<open>P\<close> that is well-formed UTF-16 and does not begin with
  U+FEFF, every master password \<open>S\<close> and every envelope \<open>E\<close> that \<open>encrypt(P, S)\<close> returns,
  \<open>decrypt(E, S)\<close> returns \<open>P\<close>.
\<close>

theorem C1_round_trip:
  assumes aead: "\<And>key iv_bytes data ct.
      AES_GCM_encrypt X key iv_bytes data = Inr ct \<Longrightarrow> AES_GCM_decrypt X key iv_bytes ct = Inr data"
    and wf: "well_formed_utf16 P" and bom: "\<not> starts_with_BOM P"
    and enc: "fst (encrypt X P S e) = Inr E"
  shows "decrypt X E S = Inr P"
  using encrypt_decrypt [OF aead enc] text_roundtrip [OF wf bom] by simp

lemma ex_aead:
  "AES_GCM_encrypt example_platform key iv_bytes data = Inr ct
     \<Longrightarrow> AES_GCM_decrypt example_platform key iv_bytes ct = Inr data"
  by (auto simp: example_platform_def pad_to_def)

lemma ex_encrypt_succeeds:
  "\<exists>E. fst (encrypt example_platform P S e) = Inr E"
  by (simp add: encrypt_def deriveKey_def subtle_importKey_def subtle_deriveKey_def
        subtle_exportKey_def subtle_encrypt_def bind_err_def Let_def KEY_LENGTH_def
        PBKDF2_ITERATIONS_def arrayBufferToBase64_eq example_platform_def split: prod.splits)

text \<open>
  Claim C1, as stated for every plaintext string, fails on two kinds of strings, whatever
  the cipher: the plaintext passes through \<open>TextEncoder\<close> before encryption and through
  \<open>TextDecoder\<close> after decryption (lemma \<open>encrypt_decrypt\<close>).  The decoder drops a leading
  U+FEFF, so the string U+FEFF \<open>a\<close> comes back as \<open>a\<close>; the encoder replaces an unpaired
  surrogate by U+FFFD, so the string U+D83D \<open>a\<close> comes back as U+FFFD \<open>a\<close>.
\<close>

theorem C1_counterexample:
  "(case fst (encrypt example_platform [0xFEFF, 0x61] (js ''secret'') (\<lambda>i. 0)) of
      Inl err \<Rightarrow> False
    | Inr E \<Rightarrow> decrypt example_platform E (js ''secret'') = Inr [0x61])
   \<and> (case fst (encrypt example_platform [0xD83D, 0x61] (js ''secret'') (\<lambda>i. 0)) of
      Inl err \<Rightarrow> False
    | Inr E \<Rightarrow> decrypt example_platform E (js ''secret'') = Inr [0xFFFD, 0x61])"
proof -
  have t1: "TextDecoder_decode (TextEncoder_encode [0xFEFF, 0x61]) = [0x61]"
    by (simp add: TextDecoder_decode_def TextEncoder_encode_def utf8_encode_scalar_def
          scalar_of_unit_def is_high_surrogate_def is_low_surrogate_def strip_BOM_def
          utf16_encode_scalar_def utf8_decoder_continue)
  have t2: "TextDecoder_decode (TextEncoder_encode [0xD83D, 0x61]) = [0xFFFD, 0x61]"
    by (simp add: TextDecoder_decode_def TextEncoder_encode_def utf8_encode_scalar_def
          scalar_of_unit_def is_high_surrogate_def is_low_surrogate_def strip_BOM_def
          utf16_encode_scalar_def utf8_decoder_continue)
  obtain E1 where e1: "fst (encrypt example_platform [0xFEFF, 0x61] (js ''secret'') (\<lambda>i. 0)) = Inr E1"
    using ex_encrypt_succeeds by blast
  obtain E2 where e2: "fst (encrypt example_platform [0xD83D, 0x61] (js ''secret'') (\<lambda>i. 0)) = Inr E2"
    using ex_encrypt_succeeds by blast
  show ?thesis
    using encrypt_decrypt [OF ex_aead e1] encrypt_decrypt [OF ex_aead e2] e1 e2 t1 t2 by simp
qed

theorem C1_witness:
  "well_formed_utf16 (js ''{}'') \<and> \<not> starts_with_BOM (js ''{}'')
   \<and> (case fst (encrypt example_platform (js ''{}'') (js ''secret'') (\<lambda>i. 0)) of
      Inl err \<Rightarrow> False
    | Inr E \<Rightarrow> decrypt example_platform E (js ''secret'') = Inr (js ''{}''))"
proof -
  have wf: "well_formed_utf16 (js ''{}'')"
    by (simp add: js_def is_high_surrogate_def is_low_surrogate_def)
  have bom: "\<not> starts_with_BOM (js ''{}'')" by (simp add: js_def starts_with_BOM_def)
  obtain E where e: "fst (encrypt example_platform (js ''{}'') (js ''secret'') (\<lambda>i. 0)) = Inr E"
    using ex_encrypt_succeeds by blast
  show ?thesis using C1_round_trip [OF ex_aead wf bom e] wf bom e by simp
qed

lemma decrypt_rejected:
  assumes "base64ToArrayBuffer (ciphertext E) = Inr ct"
    and "base64ToArrayBuffer (salt E) = Inr salt_bytes"
    and "base64ToArrayBuffer (iv E) = Inr iv_bytes"
    and "deriveKey X S salt_bytes
           (case iterations E of None \<Rightarrow> 100000 | Some n \<Rightarrow> if n = 0 then 100000 else n) = Inr key"
    and "AES_GCM_decrypt X (key_data key) iv_bytes ct = Inl err"
  shows "decrypt X E S = Inl decryption_failed"
  using assms deriveKey_key [OF assms(4)]
  by (simp add: decrypt_def bind_err_def subtle_decrypt_def Let_def)

text \<open>
  Claim C2 on a corrupted envelope: the base64 decoding of the envelope's fields happens
  before the \<open>try\<close> block.  A ciphertext field that is no longer valid base64 (here one
  stray character appended) makes \<open>atob\<close> throw \<open>InvalidCharacterError\<close>, which \<open>decrypt\<close>
  lets through instead of its single decryption error.  (Once the fields decode and the key
  is derived, every rejection by AES-GCM does give that single error: lemma
  \<open>decrypt_rejected\<close>.)
\<close>

theorem C2_corrupted_base64_escapes:
  "decrypt X \<lparr>ciphertext = js ''AQID!'', salt = js ''AQID'', iv = js ''AQID'',
               iterations = Some 600000\<rparr> S
     = Inl (DOMException ''InvalidCharacterError'')
   \<and> DOMException ''InvalidCharacterError'' \<noteq> decryption_failed"
  by (simp add: decrypt_def base64ToArrayBuffer_def bind_err_def atob_def js_def
        strip_padding_def is_ascii_whitespace_def decryption_failed_def)

end
